theory Spec2Isabelle
  imports Complex_Main "HOL-Library.Word" "HOL-Library.Char_ord" "HOL-Library.List_Lexorder"
begin

section \<open>Data model\<close>

text \<open>
  The dashboard script \<^verbatim>\<open>app.py\<close> works on two pandas data frames read from CSV files.
  A data frame is modelled as the list of its rows in table order; the index that
  \<^verbatim>\<open>read_csv\<close> gives a frame is the range \<open>0, 1, ..., n - 1\<close>, so the label of a row is
  its position. Cells are taken to be present and of the column's type: a region name
  is a string, a year and a rank are integers, the score and the four criteria are
  numbers, read as reals (no missing cell, no NaN; the rounding of the cells pandas
  holds is not modelled). The realised count is a column of whole numbers, which
  pandas holds as 64-bit signed integers: a cell is a 64-bit word, read as a number by
  \<open>sint\<close>, and sums wrap around as they do in that column. A file with a decimal count
  gives a floating-point column, whose rounded sums are outside this model.
\<close>

record ts_row =
  Wilayah :: string
  Tahun :: int
  Realisasi :: "64 word"

record spk_row =
  Wilayah_spk :: string
  Ranking :: int
  Skor_TOPSIS :: real
  C1_Volume :: real
  C2_Efektivitas :: real
  C3_Tren_Pertumbuhan :: real
  C4_Stabilitas :: real

text \<open>
  The two files of the working directory, each absent (\<open>None\<close>) or holding a table: the
  table that \<^verbatim>\<open>read_csv\<close> gives for its text.
\<close>

record files =
  data_timeseries_bansos_jabar :: "ts_row list option"
  hasil_spk_topsis :: "spk_row list option"

text \<open>
  The values the two sidebar widgets hold when a pass runs: what the user has chosen.
  They are inputs of a pass.
\<close>

record sidebar =
  selected_regions :: "string list"
  selected_years :: "int \<times> int"

text \<open>The exceptions that the script does not catch.\<close>

datatype fault = ValueError | IndexError | KeyError | StreamlitAPIException

text \<open>
  The bar chart is kept as its specification: the rows it is built from, and whether
  the layout sets \<^verbatim>\<open>yaxis=dict(autorange="reversed")\<close>.
\<close>

record fig =
  data_frame :: "spk_row list"
  yaxis_autorange_reversed :: bool

text \<open>
  What a pass puts on the page, in the order of the calls. Static titles, captions and
  separators are left out; a KPI is recorded with its values, before the f-string
  formats them for display. \<open>St_dataframe\<close> carries the table that is styled for display,
  \<open>St_download_button\<close> the table whose \<^verbatim>\<open>to_csv(index=False)\<close> text, encoded in UTF-8, is
  the payload of the download (\<open>download_data\<close> below).
\<close>

datatype element =
    St_error string
  | Metric_total_penerima "64 word"
  | Metric_rata_rata_efektivitas "real option"
  | Metric_wilayah_terbaik string real
  | Metric_paling_stabil string "real option"
  | Plotly_chart_line "ts_row list"
  | St_warning string
  | Plotly_chart_bar fig
  | Plotly_chart_scatter "spk_row list" "real option" "real option"
  | St_dataframe "spk_row list"
  | St_download_button "spk_row list"

datatype status = Completed | Stopped | Faulted fault

section \<open>Frames as objects\<close>

text \<open>
  A variable of the script holds a reference to a frame. The store keeps the frames of
  a pass by address, the time-series frames and the ranking frames apart, and the page.
  The two loaded tables are the first object of each kind; an address is only ever
  made by an operation that makes a frame, so it is always that of an object.
\<close>

record store =
  ts_frames :: "ts_row list list"
  spk_frames :: "spk_row list list"
  rendered :: "element list"

definition session :: "ts_row list \<Rightarrow> spk_row list \<Rightarrow> element list \<Rightarrow> store" where
  "session ts spk page = \<lparr>ts_frames = [ts], spk_frames = [spk], rendered = page\<rparr>"

definition df_ts :: nat where
  "df_ts = 0"

definition df_spk :: nat where
  "df_spk = 0"

definition ts_at :: "store \<Rightarrow> nat \<Rightarrow> ts_row list" where
  "ts_at s a = ts_frames s ! a"

definition spk_at :: "store \<Rightarrow> nat \<Rightarrow> spk_row list" where
  "spk_at s a = spk_frames s ! a"

text \<open>
  Modelled from the spec: the effect of the pandas operations of the script on the
  frames they are given (pandas is not part of the source). The specification calls
  the filter a pure function and the tables read-only; the documentation of pandas has
  boolean indexing and \<^verbatim>\<open>head\<close> return a new frame, and \<^verbatim>\<open>sort_values\<close> return a new frame
  unless \<^verbatim>\<open>inplace=True\<close>, when it reorders the frame it is called on. Reductions, column
  reads, \<^verbatim>\<open>.loc\<close> reads, the styler, the chart constructors and \<^verbatim>\<open>to_csv\<close> read a frame;
  they are expressions over the store.
\<close>

definition derive_ts :: "(ts_row list \<Rightarrow> ts_row list) \<Rightarrow> nat \<Rightarrow> store \<Rightarrow> nat \<times> store" where
  "derive_ts f a s = (length (ts_frames s), s\<lparr>ts_frames := ts_frames s @ [f (ts_at s a)]\<rparr>)"

definition derive_spk :: "(spk_row list \<Rightarrow> spk_row list) \<Rightarrow> nat \<Rightarrow> store \<Rightarrow> nat \<times> store" where
  "derive_spk f a s = (length (spk_frames s), s\<lparr>spk_frames := spk_frames s @ [f (spk_at s a)]\<rparr>)"

definition replace_spk :: "(spk_row list \<Rightarrow> spk_row list) \<Rightarrow> nat \<Rightarrow> store \<Rightarrow> nat \<times> store" where
  "replace_spk f a s = (a, s\<lparr>spk_frames := (spk_frames s)[a := f (spk_at s a)]\<rparr>)"

definition sort_values :: "bool \<Rightarrow> nat \<Rightarrow> store \<Rightarrow> nat \<times> store" where
  "sort_values inplace a s =
     (if inplace then replace_spk (sort_key Ranking) a s else derive_spk (sort_key Ranking) a s)"

definition head :: "nat \<Rightarrow> nat \<Rightarrow> store \<Rightarrow> nat \<times> store" where
  "head n a s = derive_spk (take n) a s"

definition boolean_mask :: "(ts_row list \<Rightarrow> ts_row list) \<Rightarrow> nat \<Rightarrow> store \<Rightarrow> nat \<times> store" where
  "boolean_mask rows a s = derive_ts rows a s"

section \<open>Loading\<close>

definition file_not_found_message :: string where
  "file_not_found_message =
     ''File CSV tidak ditemukan! Pastikan 'data_timeseries_bansos_jabar.csv' dan 'hasil_spk_topsis.csv' ada di folder yang sama.''"

text \<open>
  \<^verbatim>\<open>load_data\<close>: the first \<^verbatim>\<open>read_csv\<close> that meets an absent file raises
  \<^verbatim>\<open>FileNotFoundError\<close>; the handler reports it and returns \<^verbatim>\<open>None, None\<close>. The result
  is the elements put on the page and the pair returned. The message is the source's
  without its leading pictograph.
\<close>

definition load_data ::
  "files \<Rightarrow> element list \<times> ts_row list option \<times> spk_row list option" where
  "load_data fs =
     (case data_timeseries_bansos_jabar fs of
        None \<Rightarrow> ([St_error file_not_found_message], None, None)
      | Some ts \<Rightarrow>
          (case hasil_spk_topsis fs of
             None \<Rightarrow> ([St_error file_not_found_message], None, None)
           | Some spk \<Rightarrow> ([], Some ts, Some spk)))"

section \<open>Sidebar and filter\<close>

text \<open>
  Modelled from the spec: what the two widgets of the hosting framework do with their
  arguments (the framework is not part of the source). \<^verbatim>\<open>st.multiselect\<close> raises when a
  default value is not among the options, \<^verbatim>\<open>st.slider\<close> when its lower bound is not
  below its upper bound; otherwise each returns the value it holds.
\<close>

definition st_multiselect :: "string list \<Rightarrow> string list \<Rightarrow> string list \<Rightarrow> fault + string list" where
  "st_multiselect options defaults held =
     (if set defaults \<subseteq> set options then Inr held else Inl StreamlitAPIException)"

definition st_slider :: "int \<Rightarrow> int \<Rightarrow> int \<times> int \<Rightarrow> fault + int \<times> int" where
  "st_slider min_value max_value held =
     (if min_value < max_value then Inr held else Inl StreamlitAPIException)"

text \<open>
  \<^verbatim>\<open>int(series.min())\<close> and \<^verbatim>\<open>int(series.max())\<close>: the reduction of an empty series is
  NaN, and \<^verbatim>\<open>int\<close> of NaN raises \<^verbatim>\<open>ValueError\<close>.
\<close>

fun int_series_min :: "int list \<Rightarrow> fault + int" where
  "int_series_min [] = Inl ValueError"
| "int_series_min (x # xs) = Inr (fold min xs x)"

fun int_series_max :: "int list \<Rightarrow> fault + int" where
  "int_series_max [] = Inl ValueError"
| "int_series_max (x # xs) = Inr (fold max xs x)"

definition min_year :: "ts_row list \<Rightarrow> fault + int" where
  "min_year ts = int_series_min (map Tahun ts)"

definition max_year :: "ts_row list \<Rightarrow> fault + int" where
  "max_year ts = int_series_max (map Tahun ts)"

definition df_ts_filtered :: "ts_row list \<Rightarrow> string list \<Rightarrow> int \<times> int \<Rightarrow> ts_row list" where
  "df_ts_filtered ts regions years =
     filter (\<lambda>r. Wilayah r \<in> set regions \<and> Tahun r \<ge> fst years \<and> Tahun r \<le> snd years) ts"

section \<open>Key performance indicators\<close>

definition total_realisasi_2024 :: "ts_row list \<Rightarrow> int \<Rightarrow> 64 word" where
  "total_realisasi_2024 ts my = sum_list (map Realisasi (filter (\<lambda>r. Tahun r = my) ts))"

text \<open>The mean of a column; the mean of an empty column is NaN, here \<open>None\<close>.\<close>

definition mean :: "real list \<Rightarrow> real option" where
  "mean xs = (if xs = [] then None else Some (sum_list xs / real (length xs)))"

definition avg_eff :: "spk_row list \<Rightarrow> real option" where
  "avg_eff spk = mean (map C2_Efektivitas spk)"

text \<open>\<^verbatim>\<open>.values[0]\<close>: the first entry of the selected column, \<^verbatim>\<open>IndexError\<close> when there is none.\<close>

definition values0 :: "'a list \<Rightarrow> fault + 'a" where
  "values0 xs = (case xs of [] \<Rightarrow> Inl IndexError | x # _ \<Rightarrow> Inr x)"

definition top_region :: "spk_row list \<Rightarrow> fault + string" where
  "top_region spk = values0 (map Wilayah_spk (filter (\<lambda>r. Ranking r = 1) spk))"

definition top_score :: "spk_row list \<Rightarrow> fault + real" where
  "top_score spk = values0 (map Skor_TOPSIS (filter (\<lambda>r. Ranking r = 1) spk))"

text \<open>
  \<^verbatim>\<open>idxmin\<close>: one scan that keeps the position and value of the least entry so far and
  replaces them only by a strictly smaller entry; an empty column raises \<^verbatim>\<open>ValueError\<close>.
\<close>

fun argmin_scan :: "real list \<Rightarrow> nat \<Rightarrow> nat \<times> real \<Rightarrow> nat \<times> real" where
  "argmin_scan [] i best = best"
| "argmin_scan (x # xs) i best =
     argmin_scan xs (Suc i) (if x < snd best then (i, x) else best)"

definition idxmin :: "real list \<Rightarrow> fault + nat" where
  "idxmin xs = (case xs of [] \<Rightarrow> Inl ValueError | x # rest \<Rightarrow> Inr (fst (argmin_scan rest 1 (0, x))))"

text \<open>\<^verbatim>\<open>.loc[label, column]\<close> on the range index: \<^verbatim>\<open>KeyError\<close> for a label that is no row.\<close>

definition loc :: "spk_row list \<Rightarrow> nat \<Rightarrow> (spk_row \<Rightarrow> 'a) \<Rightarrow> fault + 'a" where
  "loc spk label column = (if label < length spk then Inr (column (spk ! label)) else Inl KeyError)"

definition stable_region :: "spk_row list \<Rightarrow> fault + string" where
  "stable_region spk =
     (case idxmin (map C4_Stabilitas spk) of
        Inl e \<Rightarrow> Inl e
      | Inr label \<Rightarrow> loc spk label Wilayah_spk)"

text \<open>\<^verbatim>\<open>.min()\<close> with no conversion: NaN (\<open>None\<close>) on an empty column.\<close>

definition stable_value :: "spk_row list \<Rightarrow> real option" where
  "stable_value spk =
     (case map C4_Stabilitas spk of [] \<Rightarrow> None | x # xs \<Rightarrow> Some (fold min xs x))"

section \<open>Charts, table and export\<close>

definition col_left :: "ts_row list \<Rightarrow> element" where
  "col_left filtered =
     (if filtered \<noteq> [] then Plotly_chart_line filtered
      else St_warning ''Silakan pilih wilayah di sidebar untuk melihat grafik.'')"

text \<open>
  \<^verbatim>\<open>sort_values('Ranking')\<close> is modelled by the insertion sort of the library. Where two
  rows have the same rank the order pandas gives them is that of its sorting algorithm;
  with distinct ranks every sorting algorithm gives the same table. \<open>top_10\<close> and
  \<open>fig_bar\<close> give the rows and the chart of lines 153 to 167 as values of the table.
\<close>

definition top_10 :: "spk_row list \<Rightarrow> spk_row list" where
  "top_10 spk = take 10 (sort_key Ranking spk)"

definition fig_bar :: "spk_row list \<Rightarrow> fig" where
  "fig_bar spk = \<lparr>data_frame = top_10 spk, yaxis_autorange_reversed = True\<rparr>"

text \<open>
  The plotting library puts the first category of a horizontal bar chart at the bottom
  of the axis and the following ones above it; a reversed axis puts the first at the top.
\<close>

definition top_to_bottom :: "fig \<Rightarrow> spk_row list" where
  "top_to_bottom f = (if yaxis_autorange_reversed f then data_frame f else rev (data_frame f))"

definition mean_eff :: "spk_row list \<Rightarrow> real option" where
  "mean_eff spk = mean (map C2_Efektivitas spk)"

definition mean_stab :: "spk_row list \<Rightarrow> real option" where
  "mean_stab spk = mean (map C4_Stabilitas spk)"

text \<open>The scatter chart of the whole ranking table, with its horizontal line at the mean
  stability and its vertical line at the mean effectiveness.\<close>

definition fig_scatter :: "spk_row list \<Rightarrow> element" where
  "fig_scatter spk = Plotly_chart_scatter spk (mean_stab spk) (mean_eff spk)"

section \<open>One pass of the script\<close>

definition emit :: "element \<Rightarrow> store \<Rightarrow> store" where
  "emit e s = s\<lparr>rendered := rendered s @ [e]\<rparr>"

text \<open>
  The body of the script after the tables are loaded, statement by statement: the
  sidebar (options, default selection, the two widgets), the filter, the four KPIs,
  the three charts, the table and the download. An uncaught exception ends the pass
  with what was put on the page before it.
\<close>

definition script :: "sidebar \<Rightarrow> store \<Rightarrow> status \<times> store" where
  "script sb s0 =
     (let all_regions = sort (remdups (map Wilayah (ts_at s0 df_ts)));
          (by_rank, s1) = sort_values False df_spk s0;
          defaults = take 5 (map Wilayah_spk (spk_at s1 by_rank))
      in
     (case st_multiselect all_regions defaults (selected_regions sb) of
        Inl e \<Rightarrow> (Faulted e, s1)
      | Inr regions \<Rightarrow>
     (case min_year (ts_at s1 df_ts) of
        Inl e \<Rightarrow> (Faulted e, s1)
      | Inr lo \<Rightarrow>
     (case max_year (ts_at s1 df_ts) of
        Inl e \<Rightarrow> (Faulted e, s1)
      | Inr hi \<Rightarrow>
     (case st_slider lo hi (selected_years sb) of
        Inl e \<Rightarrow> (Faulted e, s1)
      | Inr years \<Rightarrow>
     (let (filtered, s2) = boolean_mask (\<lambda>ts. df_ts_filtered ts regions years) df_ts s1;
          s3 = emit (Metric_total_penerima (total_realisasi_2024 (ts_at s2 df_ts) hi)) s2;
          s4 = emit (Metric_rata_rata_efektivitas (avg_eff (spk_at s3 df_spk))) s3
      in
     (case top_region (spk_at s4 df_spk) of
        Inl e \<Rightarrow> (Faulted e, s4)
      | Inr region \<Rightarrow>
     (case top_score (spk_at s4 df_spk) of
        Inl e \<Rightarrow> (Faulted e, s4)
      | Inr score \<Rightarrow>
     (let s5 = emit (Metric_wilayah_terbaik region score) s4 in
     (case stable_region (spk_at s5 df_spk) of
        Inl e \<Rightarrow> (Faulted e, s5)
      | Inr stablest \<Rightarrow>
     (let s6 = emit (Metric_paling_stabil stablest (stable_value (spk_at s5 df_spk))) s5;
          s7 = emit (col_left (ts_at s6 filtered)) s6;
          (ranked, s8) = sort_values False df_spk s7;
          (top, s9) = head 10 ranked s8;
          s10 = emit (Plotly_chart_bar
                  \<lparr>data_frame = spk_at s9 top, yaxis_autorange_reversed = True\<rparr>) s9;
          s11 = emit (fig_scatter (spk_at s10 df_spk)) s10;
          s12 = emit (St_dataframe (spk_at s11 df_spk)) s11;
          s13 = emit (St_download_button (spk_at s12 df_spk)) s12
      in (Completed, s13))))))))))))"

text \<open>
  A pass from the start: load, stop when a table is absent, else run the body on the
  two loaded tables.
\<close>

definition app :: "files \<Rightarrow> sidebar \<Rightarrow> status \<times> element list" where
  "app fs sb =
     (case load_data fs of
        (page, Some ts, Some spk) \<Rightarrow>
          (case script sb (session ts spk page) of
             (st, s) \<Rightarrow> (st, rendered s))
      | (page, _, _) \<Rightarrow> (Stopped, page))"

text \<open>
  Every change of a widget runs the script again, from an empty page, on the objects
  the session holds. The objects a pass leaves are the ones the next pass finds.
\<close>

fun rerun :: "store \<Rightarrow> sidebar list \<Rightarrow> store" where
  "rerun s [] = s"
| "rerun s (sb # sbs) = rerun (snd (script sb (s\<lparr>rendered := []\<rparr>))) sbs"

text \<open>The values of the first KPI that a page shows.\<close>

fun total_penerima :: "element list \<Rightarrow> 64 word list" where
  "total_penerima [] = []"
| "total_penerima (Metric_total_penerima v # es) = v # total_penerima es"
| "total_penerima (e # es) = total_penerima es"

section \<open>The export as text\<close>

text \<open>
  Modelled from the spec: the text of the export and its re-reading, that is pandas'
  \<^verbatim>\<open>to_csv(index=False)\<close> and \<^verbatim>\<open>read_csv\<close> with their default arguments, which are not part
  of the source. The specification fixes the format: comma-delimited text with a header
  row, no index column, the seven columns of the ranking table, raw values. The rest
  follows the documentation of pandas and of the csv module it writes with. A text is
  a string of bytes, so the UTF-8 encoding of line 226 leaves it as it is.

  Numbers are written in plain decimal notation and read exactly: a cell of a
  criterion column is the real number its text denotes. (The writer of pandas gives
  the same digits for numbers from a ten-thousandth up to ten to the sixteenth, and an
  exponent beyond; the floating-point rounding of a text with more digits than a cell
  holds is not modelled.) What pandas reads in another way is outside the model
  and \<open>read_csv\<close> gives \<open>None\<close> for it: a carriage return anywhere in the text, a number
  in exponent notation or with spaces, a header that is not the seven column names in
  their order, a row that has not seven fields, a missing cell.
\<close>

definition comma :: char where "comma = CHR '',''"
definition dquote :: char where "dquote = CHR 0x22"
definition LF :: char where "LF = CHR 0x0A"
definition CR :: char where "CR = CHR 0x0D"

text \<open>Whole numbers as digits, and digits as a whole number.\<close>

definition digit_chars :: string where
  "digit_chars = ''0123456789''"

definition digit_char :: "nat \<Rightarrow> char" where
  "digit_char d = digit_chars ! d"

definition is_digit :: "char \<Rightarrow> bool" where
  "is_digit c = (c \<in> set digit_chars)"

definition digit_val :: "char \<Rightarrow> nat" where
  "digit_val c = length (takeWhile (\<lambda>x. x \<noteq> c) digit_chars)"

function digits :: "nat \<Rightarrow> string" where
  "digits n = (if n < 10 then [digit_char n] else digits (n div 10) @ [digit_char (n mod 10)])"
  by pat_completeness auto
termination
  by (relation "measure id") auto

declare digits.simps [simp del]

definition nat_of_digits :: "string \<Rightarrow> nat" where
  "nat_of_digits s = fold (\<lambda>c n. 10 * n + digit_val c) s 0"

text \<open>
  The digits after the decimal point of a number in \<open>[0, 1)\<close>: the recursion ends exactly
  for the numbers that have a finite decimal expansion, which every floating-point cell
  has. \<open>frac_value\<close> reads them back.
\<close>

partial_function (option) frac_digits :: "real \<Rightarrow> string option" where
  "frac_digits y =
     (if y = 0 then Some []
      else Option.bind (frac_digits (10 * y - of_int \<lfloor>10 * y\<rfloor>))
             (\<lambda>ds. Some (digit_char (nat \<lfloor>10 * y\<rfloor>) # ds)))"

definition frac_value :: "string \<Rightarrow> real" where
  "frac_value ds = foldr (\<lambda>c v. (of_nat (digit_val c) + v) / 10) ds 0"

definition columns :: "string list" where
  "columns =
     [''Wilayah'', ''Ranking'', ''Skor_TOPSIS'', ''C1_Volume'', ''C2_Efektivitas'',
      ''C3_Tren_Pertumbuhan'', ''C4_Stabilitas'']"

text \<open>
  The writer: a field is put in quotes, with every quote in it doubled, when it holds
  the delimiter, a quote or a line break; fields are joined by commas and a line ends
  with a line feed. The region name is written as it is, the rank as an integer, the
  score and the criteria as decimal numbers with at least one digit after the point.
\<close>

definition needs_quotes :: "string \<Rightarrow> bool" where
  "needs_quotes f = list_ex (\<lambda>c. c = comma \<or> c = dquote \<or> c = LF \<or> c = CR) f"

abbreviation escape :: "string \<Rightarrow> string" where
  "escape f \<equiv> concat (map (\<lambda>c. if c = dquote then [dquote, dquote] else [c]) f)"

definition quote_field :: "string \<Rightarrow> string" where
  "quote_field f = (if needs_quotes f then dquote # escape f @ [dquote] else f)"

fun join_fields :: "string list \<Rightarrow> string" where
  "join_fields [] = [LF]"
| "join_fields [f] = f @ [LF]"
| "join_fields (f # g # fs) = f @ comma # join_fields (g # fs)"

definition csv_line :: "string list \<Rightarrow> string" where
  "csv_line fs = join_fields (map quote_field fs)"

definition show_int :: "int \<Rightarrow> string" where
  "show_int i = (if i < 0 then CHR ''-'' # digits (nat (- i)) else digits (nat i))"

definition show_float :: "real \<Rightarrow> string option" where
  "show_float x =
     (let whole = nat \<lfloor>\<bar>x\<bar>\<rfloor> in
      case frac_digits (\<bar>x\<bar> - of_nat whole) of
        None \<Rightarrow> None
      | Some ds \<Rightarrow>
          Some ((if x < 0 then ''-'' else []) @ digits whole @ ''.'' @
                (if ds = [] then ''0'' else ds)))"

definition row_fields :: "spk_row \<Rightarrow> string list option" where
  "row_fields r =
     map_option (\<lambda>numbers. Wilayah_spk r # show_int (Ranking r) # numbers)
       (those (map show_float
          [Skor_TOPSIS r, C1_Volume r, C2_Efektivitas r, C3_Tren_Pertumbuhan r,
           C4_Stabilitas r]))"

definition to_csv :: "spk_row list \<Rightarrow> string option" where
  "to_csv t =
     map_option (\<lambda>rows. concat (map csv_line (columns # rows))) (those (map row_fields t))"

text \<open>
  The reader splits the text into records of fields with four states: at the start of
  a field, in an unquoted field, in a quoted field, and after a quote met in a quoted
  field (which ends the field unless another quote follows). A line feed ends a record
  outside quotes and is part of the field inside them; an empty line is skipped; a text
  that ends inside quotes is refused.
\<close>

datatype tokenizer_state = Start_field | In_field | In_quoted | Quote_in_quoted

fun tokenize ::
  "tokenizer_state \<Rightarrow> string \<Rightarrow> string list \<Rightarrow> string list list \<Rightarrow> string \<Rightarrow> string list list option"
where
  "tokenize In_quoted fld row rows [] = None"
| "tokenize Start_field fld row rows [] =
     (if row = [] then Some (rev rows) else Some (rev (rev ([] # row) # rows)))"
| "tokenize st fld row rows [] = Some (rev (rev (rev fld # row) # rows))"
| "tokenize Start_field fld row rows (c # cs) =
     (if c = dquote then tokenize In_quoted [] row rows cs
      else if c = comma then tokenize Start_field [] ([] # row) rows cs
      else if c = LF then
        (if row = [] then tokenize Start_field [] [] rows cs
         else tokenize Start_field [] [] (rev ([] # row) # rows) cs)
      else tokenize In_field [c] row rows cs)"
| "tokenize In_field fld row rows (c # cs) =
     (if c = comma then tokenize Start_field [] (rev fld # row) rows cs
      else if c = LF then tokenize Start_field [] [] (rev (rev fld # row) # rows) cs
      else tokenize In_field (c # fld) row rows cs)"
| "tokenize In_quoted fld row rows (c # cs) =
     (if c = dquote then tokenize Quote_in_quoted fld row rows cs
      else tokenize In_quoted (c # fld) row rows cs)"
| "tokenize Quote_in_quoted fld row rows (c # cs) =
     (if c = dquote then tokenize In_quoted (c # fld) row rows cs
      else if c = comma then tokenize Start_field [] (rev fld # row) rows cs
      else if c = LF then tokenize Start_field [] [] (rev (rev fld # row) # rows) cs
      else tokenize In_field (c # fld) row rows cs)"

text \<open>
  The strings that \<^verbatim>\<open>read_csv\<close> takes for a missing value. A region cell that is one of
  them is a missing cell, which the data model has not.
\<close>

definition na_values :: "string list" where
  "na_values =
     [[], ''#N/A'', ''#N/A N/A'', ''#NA'', ''-1.#IND'', ''-1.#QNAN'', ''-NaN'', ''-nan'',
      ''1.#IND'', ''1.#QNAN'', ''<NA>'', ''N/A'', ''NA'', ''NULL'', ''NaN'', ''None'', ''n/a'',
      ''nan'', ''null'']"

text \<open>The cells of a record: the rank an integer, the score and criteria decimal numbers.\<close>

definition parse_nat :: "string \<Rightarrow> nat option" where
  "parse_nat s = (if s \<noteq> [] \<and> list_all is_digit s then Some (nat_of_digits s) else None)"

definition parse_int :: "string \<Rightarrow> int option" where
  "parse_int s =
     (case s of
        [] \<Rightarrow> None
      | c # cs \<Rightarrow>
          if c = CHR ''-'' then map_option (\<lambda>n. - int n) (parse_nat cs)
          else map_option int (parse_nat s))"

definition parse_unsigned :: "string \<Rightarrow> real option" where
  "parse_unsigned s =
     (let whole = takeWhile is_digit s; rest = dropWhile is_digit s in
      if whole = [] then None
      else case rest of
        [] \<Rightarrow> Some (real (nat_of_digits whole))
      | c # decimals \<Rightarrow>
          if c = CHR ''.'' \<and> list_all is_digit decimals
          then Some (real (nat_of_digits whole) + frac_value decimals)
          else None)"

definition parse_float :: "string \<Rightarrow> real option" where
  "parse_float s =
     (case s of
        [] \<Rightarrow> None
      | c # cs \<Rightarrow>
          if c = CHR ''-'' then map_option uminus (parse_unsigned cs)
          else parse_unsigned s)"

definition parse_row :: "string list \<Rightarrow> spk_row option" where
  "parse_row cells =
     (case cells of
        [w, r, s, c1, c2, c3, c4] \<Rightarrow>
          if w \<in> set na_values then None
          else (case (parse_int r, those (map parse_float [s, c1, c2, c3, c4])) of
                  (Some rank, Some [score, v1, v2, v3, v4]) \<Rightarrow>
                    Some \<lparr>Wilayah_spk = w, Ranking = rank, Skor_TOPSIS = score,
                          C1_Volume = v1, C2_Efektivitas = v2, C3_Tren_Pertumbuhan = v3,
                          C4_Stabilitas = v4\<rparr>
                | _ \<Rightarrow> None)
      | _ \<Rightarrow> None)"

definition read_csv :: "string \<Rightarrow> spk_row list option" where
  "read_csv text =
     (if CR \<in> set text then None
      else case tokenize Start_field [] [] [] text of
        None \<Rightarrow> None
      | Some [] \<Rightarrow> None
      | Some (header # rows) \<Rightarrow>
          if header = columns then those (map parse_row rows) else None)"

text \<open>
  Line 226 serialises \<open>df_spk\<close>, and the download button of lines 227 to 232 serves that
  text.
\<close>

definition csv :: "spk_row list \<Rightarrow> string option" where
  "csv spk = to_csv spk"

definition download_data :: "element \<Rightarrow> string option" where
  "download_data e = (case e of St_download_button spk \<Rightarrow> csv spk | _ \<Rightarrow> None)"

text \<open>
  A number with a finite decimal expansion, and a row whose region name is no missing
  value and holds no carriage return and whose numbers are such: the rows that
  \<open>read_csv\<close> gives, as shown below.
\<close>

definition decimal :: "real \<Rightarrow> bool" where
  "decimal x = (\<exists>k m. x * 10 ^ k = of_int m)"

definition well_formed :: "spk_row \<Rightarrow> bool" where
  "well_formed r =
     (Wilayah_spk r \<notin> set na_values \<and> CR \<notin> set (Wilayah_spk r) \<and>
      decimal (Skor_TOPSIS r) \<and> decimal (C1_Volume r) \<and> decimal (C2_Efektivitas r) \<and>
      decimal (C3_Tren_Pertumbuhan r) \<and> decimal (C4_Stabilitas r))"


section \<open>Scenario tables\<close>

text \<open>
  Small tables on which the theorems below are run: two regions over two years, the
  same with a third region, a time-series table whose latest counts add up to more
  than a 64-bit signed integer holds, a ranking of the two regions, a ranking where two
  rows share the least stability value and the first rank, a ranking with no first
  rank, a ranking with a rank below 1, a ranking of eleven regions, the text of a
  ranking file with the table it denotes and a time-series table of its regions, and
  a one-row table built by hand around a region name that reads as a missing value.
\<close>

definition scenario_ts :: "ts_row list" where
  "scenario_ts =
     [\<lparr>Wilayah = ''A'', Tahun = 2023, Realisasi = 10\<rparr>,
      \<lparr>Wilayah = ''A'', Tahun = 2024, Realisasi = 20\<rparr>,
      \<lparr>Wilayah = ''B'', Tahun = 2023, Realisasi = 5\<rparr>,
      \<lparr>Wilayah = ''B'', Tahun = 2024, Realisasi = 15\<rparr>]"

definition scenario_ts_abc :: "ts_row list" where
  "scenario_ts_abc =
     scenario_ts @
     [\<lparr>Wilayah = ''C'', Tahun = 2023, Realisasi = 1\<rparr>,
      \<lparr>Wilayah = ''C'', Tahun = 2024, Realisasi = 2\<rparr>]"


definition scenario_region :: "string \<Rightarrow> int \<Rightarrow> real \<Rightarrow> real \<Rightarrow> spk_row" where
  "scenario_region name rank score stab =
     \<lparr>Wilayah_spk = name, Ranking = rank, Skor_TOPSIS = score, C1_Volume = 30,
      C2_Efektivitas = 80, C3_Tren_Pertumbuhan = 2, C4_Stabilitas = stab\<rparr>"

definition scenario_spk :: "spk_row list" where
  "scenario_spk = [scenario_region ''A'' 1 0.9 7, scenario_region ''B'' 2 0.5 4]"

definition scenario_ties :: "spk_row list" where
  "scenario_ties = [scenario_region ''A'' 2 0.5 5, scenario_region ''B'' 1 0.9 2, scenario_region ''C'' 1 0.8 2]"

definition scenario_no_first :: "spk_row list" where
  "scenario_no_first = [scenario_region ''A'' 2 0.5 5, scenario_region ''B'' 3 0.4 2]"

definition scenario_rank_zero :: "spk_row list" where
  "scenario_rank_zero = [scenario_region ''A'' 1 0.9 7, scenario_region ''B'' 0 0.5 4]"

definition scenario_eleven :: "spk_row list" where
  "scenario_eleven =
     map (\<lambda>k. scenario_region ''R'' k 0.5 1) [3, 1, 2, 11, 10, 9, 8, 7, 6, 5, 4]"

definition scenario_files :: "spk_row list \<Rightarrow> files" where
  "scenario_files spk =
     \<lparr>data_timeseries_bansos_jabar = Some scenario_ts, hasil_spk_topsis = Some spk\<rparr>"

definition scenario_files_with :: "ts_row list \<Rightarrow> spk_row list \<Rightarrow> files" where
  "scenario_files_with ts spk =
     \<lparr>data_timeseries_bansos_jabar = Some ts, hasil_spk_topsis = Some spk\<rparr>"

definition scenario_sidebar :: "string list \<Rightarrow> sidebar" where
  "scenario_sidebar regions = \<lparr>selected_regions = regions, selected_years = (2023, 2024)\<rparr>"

definition scenario_csv :: string where
  "scenario_csv =
     ''Wilayah,Ranking,Skor_TOPSIS,C1_Volume,C2_Efektivitas,C3_Tren_Pertumbuhan,C4_Stabilitas'' @
     [LF] @ ''Kota A,1,0.9,30.5,80.25,2.5,7.0'' @ [LF] @
     [dquote] @ ''Kab. B, Utara'' @ [dquote] @ '',2,0.5,20.0,70.5,-1.5,4.0'' @ [LF]"

definition scenario_csv_table :: "spk_row list" where
  "scenario_csv_table =
     [\<lparr>Wilayah_spk = ''Kota A'', Ranking = 1, Skor_TOPSIS = 0.9, C1_Volume = 30.5,
       C2_Efektivitas = 80.25, C3_Tren_Pertumbuhan = 2.5, C4_Stabilitas = 7\<rparr>,
      \<lparr>Wilayah_spk = ''Kab. B, Utara'', Ranking = 2, Skor_TOPSIS = 0.5, C1_Volume = 20,
       C2_Efektivitas = 70.5, C3_Tren_Pertumbuhan = - 1.5, C4_Stabilitas = 4\<rparr>]"

definition scenario_ts_csv :: "ts_row list" where
  "scenario_ts_csv =
     [\<lparr>Wilayah = ''Kota A'', Tahun = 2023, Realisasi = 10\<rparr>,
      \<lparr>Wilayah = ''Kota A'', Tahun = 2024, Realisasi = 20\<rparr>,
      \<lparr>Wilayah = ''Kab. B, Utara'', Tahun = 2024, Realisasi = 15\<rparr>]"

definition scenario_na_name :: "spk_row list" where
  "scenario_na_name = [scenario_region ''NA'' 1 0.9 7]"

section \<open>Auxiliary facts\<close>

subsection \<open>The scan for the least entry\<close>

text \<open>
  The scan, started after a prefix \<open>pre\<close> of the column with the first least entry of
  the prefix, ends with the first least entry of the whole column.
\<close>

lemma argmin_scan_inv:
  "bi < length pre \<Longrightarrow> bv = pre ! bi \<Longrightarrow> (\<forall>j<length pre. bv \<le> pre ! j) \<Longrightarrow>
   (\<forall>j<bi. bv < pre ! j) \<Longrightarrow> argmin_scan xs (length pre) (bi, bv) = (ri, rv) \<Longrightarrow>
   ri < length (pre @ xs) \<and> rv = (pre @ xs) ! ri \<and>
   (\<forall>j<length (pre @ xs). rv \<le> (pre @ xs) ! j) \<and> (\<forall>j<ri. rv < (pre @ xs) ! j)"
proof (induction xs arbitrary: pre bi bv)
  case Nil
  then show ?case by auto
next
  case (Cons x xs)
  let ?pre = "pre @ [x]"
  show ?case
  proof (cases "x < bv")
    case True
    have scan: "argmin_scan xs (length ?pre) (length pre, x) = (ri, rv)"
      using Cons.prems(5) True by simp
    have a: "length pre < length ?pre" by simp
    have b: "x = ?pre ! length pre" by simp
    have c: "\<forall>j<length ?pre. x \<le> ?pre ! j"
      using Cons.prems(3) True by (auto simp: nth_append less_Suc_eq)
    have d: "\<forall>j<length pre. x < ?pre ! j"
      using Cons.prems(3) True by (auto simp: nth_append)
    from Cons.IH [OF a b c d scan] show ?thesis by auto
  next
    case False
    have scan: "argmin_scan xs (length ?pre) (bi, bv) = (ri, rv)"
      using Cons.prems(5) False by simp
    have a: "bi < length ?pre" using Cons.prems(1) by simp
    have b: "bv = ?pre ! bi" using Cons.prems(1,2) by (simp add: nth_append)
    have c: "\<forall>j<length ?pre. bv \<le> ?pre ! j"
      using Cons.prems(3) False by (auto simp: nth_append less_Suc_eq)
    have d: "\<forall>j<bi. bv < ?pre ! j"
      using Cons.prems(1,4) by (auto simp: nth_append)
    from Cons.IH [OF a b c d scan] show ?thesis by auto
  qed
qed

lemma idxmin_first_min:
  assumes "xs \<noteq> []"
  obtains i where "idxmin xs = Inr i" "i < length xs" "\<forall>j<length xs. xs ! i \<le> xs ! j"
    "\<forall>j<i. xs ! i < xs ! j"
proof -
  from assms obtain x rest where xs: "xs = x # rest" by (cases xs) auto
  obtain ri rv where scan: "argmin_scan rest (length [x]) (0, x) = (ri, rv)"
    by (cases "argmin_scan rest (length [x]) (0, x)") auto
  have "ri < length ([x] @ rest) \<and> rv = ([x] @ rest) ! ri \<and>
   (\<forall>j<length ([x] @ rest). rv \<le> ([x] @ rest) ! j) \<and> (\<forall>j<ri. rv < ([x] @ rest) ! j)"
    by (rule argmin_scan_inv [OF _ _ _ _ scan]) simp_all
  moreover have "idxmin xs = Inr ri" using scan by (simp add: idxmin_def xs)
  ultimately show thesis using that [of ri] unfolding xs by auto
qed

lemma fold_min_Min: "fold min xs (x::'a::linorder) = Min (set (x # xs))"
  using Min.set_eq_fold [of x xs] by simp

lemma fold_max_Max: "fold max xs (x::'a::linorder) = Max (set (x # xs))"
  using Max.set_eq_fold [of x xs] by simp

subsection \<open>First matching row, least stability, year bounds\<close>

lemma values0_filter_first:
  assumes "\<exists>r\<in>set xs. P r"
  obtains i where "i < length xs" "P (xs ! i)" "\<forall>j<i. \<not> P (xs ! j)"
    "values0 (map f (filter P xs)) = Inr (f (xs ! i))"
proof -
  from split_list_first_prop [OF assms]
  obtain ys x zs where xs: "xs = ys @ x # zs" and x: "P x" and ys: "\<forall>y\<in>set ys. \<not> P y"
    by blast
  have "filter P ys = []" using ys by (simp add: filter_empty_conv)
  then have "filter P xs = x # filter P zs" using x by (simp add: xs)
  then have v: "values0 (map f (filter P xs)) = Inr (f x)" by (simp add: values0_def)
  have n: "xs ! length ys = x" by (simp add: xs)
  have l: "length ys < length xs" by (simp add: xs)
  have b: "\<forall>j<length ys. \<not> P (xs ! j)" using ys by (simp add: xs nth_append)
  show thesis
  proof (rule that [of "length ys"])
    show "length ys < length xs" by (rule l)
    show "P (xs ! length ys)" using x n by simp
    show "\<forall>j<length ys. \<not> P (xs ! j)" by (rule b)
    show "values0 (map f (filter P xs)) = Inr (f (xs ! length ys))" using v n by simp
  qed
qed

lemma values0_filter_none:
  "\<forall>r\<in>set xs. \<not> P r \<Longrightarrow> values0 (map f (filter P xs)) = Inl IndexError"
  by (simp add: values0_def filter_empty_conv [THEN iffD2])

lemma stable_region_first_min:
  assumes "spk \<noteq> []"
  obtains i where "i < length spk" "stable_region spk = Inr (Wilayah_spk (spk ! i))"
    "\<forall>j<length spk. C4_Stabilitas (spk ! i) \<le> C4_Stabilitas (spk ! j)"
    "\<forall>j<i. C4_Stabilitas (spk ! i) < C4_Stabilitas (spk ! j)"
proof -
  have "map C4_Stabilitas spk \<noteq> []" using assms by simp
  then obtain i where i: "idxmin (map C4_Stabilitas spk) = Inr i" "i < length (map C4_Stabilitas spk)"
    "\<forall>j<length (map C4_Stabilitas spk). map C4_Stabilitas spk ! i \<le> map C4_Stabilitas spk ! j"
    "\<forall>j<i. map C4_Stabilitas spk ! i < map C4_Stabilitas spk ! j"
    by (rule idxmin_first_min)
  have "stable_region spk = Inr (Wilayah_spk (spk ! i))"
    using i(1,2) by (simp add: stable_region_def loc_def)
  then show thesis using that [of i] i(2,3,4) by simp
qed

lemma stable_value_Min:
  "spk \<noteq> [] \<Longrightarrow> stable_value spk = Some (Min (C4_Stabilitas ` set spk))"
  by (cases spk) (simp_all add: stable_value_def fold_min_Min)

lemma max_year_Max: "ts \<noteq> [] \<Longrightarrow> max_year ts = Inr (Max (Tahun ` set ts))"
  by (cases ts) (simp_all add: max_year_def fold_max_Max)

lemma min_year_Min: "ts \<noteq> [] \<Longrightarrow> min_year ts = Inr (Min (Tahun ` set ts))"
  by (cases ts) (simp_all add: min_year_def fold_min_Min)

lemma top_score_of_top_region:
  "top_region spk = Inr reg \<Longrightarrow> \<exists>sc. top_score spk = Inr sc"
  by (cases "filter (\<lambda>r. Ranking r = 1) spk") (simp_all add: top_region_def top_score_def values0_def)

lemma top_region_nonempty: "top_region spk = Inr reg \<Longrightarrow> spk \<noteq> []"
  by (auto simp: top_region_def values0_def)

lemma top_region_fault: "top_region spk = Inl e \<Longrightarrow> e = IndexError"
  by (cases "filter (\<lambda>r. Ranking r = 1) spk") (simp_all add: top_region_def values0_def)

lemma stable_region_defined: "spk \<noteq> [] \<Longrightarrow> \<exists>w. stable_region spk = Inr w"
  by (erule stable_region_first_min) blast

subsection \<open>The body of the script\<close>

lemma all_regions_set: "set (sort (remdups (map Wilayah ts))) = Wilayah ` set ts"
  by simp

lemma script_refused_multiselect:
  assumes "\<not> set (take 5 (map Wilayah_spk (sort_key Ranking spk))) \<subseteq> Wilayah ` set ts"
  shows "app \<lparr>data_timeseries_bansos_jabar = Some ts, hasil_spk_topsis = Some spk\<rparr> sb =
    (Faulted StreamlitAPIException, [])"
  using assms
  by (simp add: app_def load_data_def script_def session_def sort_values_def derive_spk_def
      ts_at_def spk_at_def df_ts_def df_spk_def st_multiselect_def Let_def)

lemma app_loaded:
  "data_timeseries_bansos_jabar fs = Some ts \<Longrightarrow> hasil_spk_topsis fs = Some spk \<Longrightarrow>
   app fs sb = (case script sb (session ts spk []) of (st, s) \<Rightarrow> (st, rendered s))"
  by (simp add: app_def load_data_def)

lemmas script_unfold =
  script_def session_def sort_values_def derive_spk_def derive_ts_def head_def
  boolean_mask_def ts_at_def spk_at_def df_ts_def df_spk_def st_multiselect_def
  st_slider_def emit_def Let_def

lemma app_refused_multiselect:
  assumes "data_timeseries_bansos_jabar fs = Some ts" "hasil_spk_topsis fs = Some spk"
    and "\<not> set (take 5 (map Wilayah_spk (sort_key Ranking spk))) \<subseteq> Wilayah ` set ts"
  shows "app fs sb = (Faulted StreamlitAPIException, [])"
  using assms(3) by (simp add: app_loaded [OF assms(1,2)] script_unfold)

lemma app_empty_ts:
  assumes "data_timeseries_bansos_jabar fs = Some []" "hasil_spk_topsis fs = Some spk"
  shows "app fs sb = (Faulted ValueError, []) \<or> app fs sb = (Faulted StreamlitAPIException, [])"
  by (simp add: app_loaded [OF assms(1,2)] script_unfold min_year_def)

lemma app_refused_slider:
  assumes "data_timeseries_bansos_jabar fs = Some ts" "hasil_spk_topsis fs = Some spk"
    and "set (take 5 (map Wilayah_spk (sort_key Ranking spk))) \<subseteq> Wilayah ` set ts"
    and "ts \<noteq> []" "\<not> Min (Tahun ` set ts) < Max (Tahun ` set ts)"
  shows "app fs sb = (Faulted StreamlitAPIException, [])"
  using assms(3,5)
  by (simp add: app_loaded [OF assms(1,2)] script_unfold min_year_Min [OF assms(4)]
      max_year_Max [OF assms(4)])

lemma app_faults_at_top:
  assumes "data_timeseries_bansos_jabar fs = Some ts" "hasil_spk_topsis fs = Some spk"
    and "set (take 5 (map Wilayah_spk (sort_key Ranking spk))) \<subseteq> Wilayah ` set ts"
    and "ts \<noteq> []" "Min (Tahun ` set ts) < Max (Tahun ` set ts)"
    and "top_region spk = Inl e"
  shows "app fs sb = (Faulted e,
       [Metric_total_penerima (total_realisasi_2024 ts (Max (Tahun ` set ts))),
        Metric_rata_rata_efektivitas (avg_eff spk)])"
  using assms(3,5,6)
  by (simp add: app_loaded [OF assms(1,2)] script_unfold min_year_Min [OF assms(4)]
      max_year_Max [OF assms(4)])

lemma app_completes:
  assumes "data_timeseries_bansos_jabar fs = Some ts" "hasil_spk_topsis fs = Some spk"
    and "set (take 5 (map Wilayah_spk (sort_key Ranking spk))) \<subseteq> Wilayah ` set ts"
    and "ts \<noteq> []" "Min (Tahun ` set ts) < Max (Tahun ` set ts)"
    and "top_region spk = Inr reg"
  obtains sc w where "top_score spk = Inr sc" "stable_region spk = Inr w"
    "app fs sb = (Completed,
       [Metric_total_penerima (total_realisasi_2024 ts (Max (Tahun ` set ts))),
        Metric_rata_rata_efektivitas (avg_eff spk),
        Metric_wilayah_terbaik reg sc,
        Metric_paling_stabil w (stable_value spk),
        col_left (df_ts_filtered ts (selected_regions sb) (selected_years sb)),
        Plotly_chart_bar (fig_bar spk),
        fig_scatter spk,
        St_dataframe spk,
        St_download_button spk])"
proof -
  from assms(6) obtain sc where sc: "top_score spk = Inr sc"
    using top_score_of_top_region by blast
  from assms(6) have "spk \<noteq> []" by (rule top_region_nonempty)
  then obtain w where w: "stable_region spk = Inr w"
    using stable_region_defined by blast
  show thesis
    using assms(3,5,6) sc w
    by (intro that [OF sc w])
      (simp add: app_loaded [OF assms(1,2)] script_unfold min_year_Min [OF assms(4)]
        max_year_Max [OF assms(4)] fig_bar_def top_10_def)
qed

lemma default_among_options:
  "Wilayah_spk ` set spk \<subseteq> Wilayah ` set ts \<Longrightarrow>
   set (take 5 (map Wilayah_spk (sort_key Ranking spk))) \<subseteq> Wilayah ` set ts"
  using set_take_subset [of 5 "map Wilayah_spk (sort_key Ranking spk)"] by auto

lemma two_years:
  assumes "r \<in> set ts" "r' \<in> set ts" "Tahun r \<noteq> Tahun r'"
  shows "ts \<noteq> []" "Min (Tahun ` set ts) < Max (Tahun ` set ts)"
proof -
  show ne: "ts \<noteq> []" using assms(1) by auto
  have fin: "finite (Tahun ` set ts)" by simp
  have a: "Min (Tahun ` set ts) \<le> Tahun r" "Min (Tahun ` set ts) \<le> Tahun r'"
    using assms(1,2) by (simp_all add: Min_le)
  have b: "Tahun r \<le> Max (Tahun ` set ts)" "Tahun r' \<le> Max (Tahun ` set ts)"
    using assms(1,2) by (simp_all add: Max_ge)
  show "Min (Tahun ` set ts) < Max (Tahun ` set ts)" using a b assms(3) by linarith
qed



text \<open>The ways a pass can end.\<close>

lemma app_cases:
  obtains
    (absent) "app fs sb = (Stopped, [St_error file_not_found_message])"
  | (refused) "app fs sb = (Faulted StreamlitAPIException, [])"
  | (empty) "app fs sb = (Faulted ValueError, [])"
  | (no_first) ts spk where "data_timeseries_bansos_jabar fs = Some ts"
      "hasil_spk_topsis fs = Some spk" "top_region spk = Inl IndexError"
      "app fs sb = (Faulted IndexError,
         [Metric_total_penerima (total_realisasi_2024 ts (Max (Tahun ` set ts))),
          Metric_rata_rata_efektivitas (avg_eff spk)])"
  | (completed) ts spk reg sc w where "data_timeseries_bansos_jabar fs = Some ts"
      "hasil_spk_topsis fs = Some spk"
      "top_region spk = Inr reg" "top_score spk = Inr sc" "stable_region spk = Inr w"
      "app fs sb = (Completed,
         [Metric_total_penerima (total_realisasi_2024 ts (Max (Tahun ` set ts))),
          Metric_rata_rata_efektivitas (avg_eff spk),
          Metric_wilayah_terbaik reg sc,
          Metric_paling_stabil w (stable_value spk),
          col_left (df_ts_filtered ts (selected_regions sb) (selected_years sb)),
          Plotly_chart_bar (fig_bar spk),
          fig_scatter spk,
          St_dataframe spk,
          St_download_button spk])"
proof (cases "data_timeseries_bansos_jabar fs")
  case None
  then show thesis using absent by (simp add: app_def load_data_def)
next
  case ts: (Some ts)
  show thesis
  proof (cases "hasil_spk_topsis fs")
    case None
    then show thesis using absent ts by (simp add: app_def load_data_def)
  next
    case spk: (Some spk)
    show thesis
    proof (cases "set (take 5 (map Wilayah_spk (sort_key Ranking spk))) \<subseteq> Wilayah ` set ts")
      case False
      then show thesis using refused app_refused_multiselect [OF ts spk] by blast
    next
      case opt: True
      show thesis
      proof (cases "ts = []")
        case True
        then show thesis using empty refused app_empty_ts [of fs spk sb] ts spk by blast
      next
        case ne: False
        show thesis
        proof (cases "Min (Tahun ` set ts) < Max (Tahun ` set ts)")
          case False
          then show thesis using refused app_refused_slider [OF ts spk opt ne] by blast
        next
          case yrs: True
          show thesis
          proof (cases "top_region spk")
            case (Inl e)
            then have e: "e = IndexError" by (rule top_region_fault)
            show thesis
              using no_first [OF ts spk] app_faults_at_top [OF ts spk opt ne yrs Inl] Inl
              unfolding e by blast
          next
            case (Inr reg)
            show thesis
            proof (rule app_completes [OF ts spk opt ne yrs Inr, of sb])
              fix sc w
              assume "top_score spk = Inr sc" "stable_region spk = Inr w"
                "app fs sb = (Completed,
                 [Metric_total_penerima (total_realisasi_2024 ts (Max (Tahun ` set ts))),
                  Metric_rata_rata_efektivitas (avg_eff spk),
                  Metric_wilayah_terbaik reg sc,
                  Metric_paling_stabil w (stable_value spk),
                  col_left (df_ts_filtered ts (selected_regions sb) (selected_years sb)),
                  Plotly_chart_bar (fig_bar spk),
                  fig_scatter spk,
                  St_dataframe spk,
                  St_download_button spk])"
              then show thesis using completed [OF ts spk Inr] by blast
            qed
          qed
        qed
      qed
    qed
  qed
qed

text \<open>How a pass ends does not depend on what the sidebar holds.\<close>

lemma script_status_independent:
  "fst (script sb s) = fst (script sb' s)"
  by (simp add: script_def sort_values_def derive_spk_def derive_ts_def head_def
      boolean_mask_def ts_at_def spk_at_def st_multiselect_def st_slider_def emit_def
      Let_def split: sum.splits prod.splits)

lemma app_status_independent: "fst (app fs sb) = fst (app fs sb')"
  using script_status_independent [of sb _ sb']
  by (simp add: app_def split: prod.splits option.splits) (metis fst_conv)

subsection \<open>Objects of the store\<close>

lemma script_keeps_objects:
  "\<exists>ts' spk'. ts_frames (snd (script sb s)) = ts_frames s @ ts' \<and>
     spk_frames (snd (script sb s)) = spk_frames s @ spk'"
  by (simp add: script_def sort_values_def derive_spk_def derive_ts_def head_def
      boolean_mask_def emit_def Let_def split: sum.splits prod.splits)

lemma rerun_keeps_objects:
  "\<exists>ts' spk'. ts_frames (rerun s sbs) = ts_frames s @ ts' \<and>
     spk_frames (rerun s sbs) = spk_frames s @ spk'"
proof (induction sbs arbitrary: s)
  case Nil
  show ?case by simp
next
  case (Cons sb sbs)
  let ?s = "snd (script sb (s\<lparr>rendered := []\<rparr>))"
  from script_keeps_objects [of sb "s\<lparr>rendered := []\<rparr>"]
  obtain t1 k1 where 1: "ts_frames ?s = ts_frames s @ t1" "spk_frames ?s = spk_frames s @ k1"
    by auto
  from Cons.IH [of ?s]
  obtain t2 k2 where 2: "ts_frames (rerun ?s sbs) = ts_frames ?s @ t2"
    "spk_frames (rerun ?s sbs) = spk_frames ?s @ k2"
    by auto
  show ?case using 1 2 by simp
qed

text \<open>The in-place variant of the sort is not of this kind: it reorders its frame.\<close>

lemma sort_values_inplace_reorders:
  "spk_at (snd (sort_values True df_spk (session ts scenario_rank_zero page))) df_spk =
     rev scenario_rank_zero"
  by (simp add: sort_values_def replace_spk_def session_def spk_at_def df_spk_def
      scenario_rank_zero_def scenario_region_def)

subsection \<open>The ten best ranks\<close>

lemma sort_values_strict:
  assumes "distinct (map Ranking spk)"
  shows "sorted_wrt (<) (map Ranking (sort_key Ranking spk))"
proof -
  have "distinct (map Ranking (sort_key Ranking spk))"
    using assms by (simp add: distinct_map inj_on_def)
  then show ?thesis by (simp add: strict_sorted_iff)
qed

lemma top_10_strict:
  assumes "distinct (map Ranking spk)"
  shows "sorted_wrt (<) (map Ranking (top_10 spk))"
  using sorted_wrt_take [OF sort_values_strict [OF assms], of 10]
  by (simp add: top_10_def take_map)

lemma top_10_before_rest:
  assumes "distinct (map Ranking spk)" "r \<in> set (top_10 spk)" "r' \<in> set spk" "r' \<notin> set (top_10 spk)"
  shows "Ranking r < Ranking r'"
proof -
  let ?s = "sort_key Ranking spk"
  have split: "?s = take 10 ?s @ drop 10 ?s" by simp
  have "r' \<in> set ?s" using assms(3) by simp
  then have "r' \<in> set (take 10 ?s) \<or> r' \<in> set (drop 10 ?s)"
    by (metis split set_append Un_iff)
  then have r': "r' \<in> set (drop 10 ?s)" using assms(4) by (simp add: top_10_def)
  have "sorted_wrt (<) (map Ranking (take 10 ?s) @ map Ranking (drop 10 ?s))"
    using sort_values_strict [OF assms(1)] by (simp flip: map_append)
  then have "\<forall>x\<in>set (map Ranking (take 10 ?s)). \<forall>y\<in>set (map Ranking (drop 10 ?s)). x < y"
    by (simp add: sorted_wrt_append)
  then show ?thesis using assms(2) r' by (simp add: top_10_def)
qed

lemma top_10_hd_least:
  assumes "r \<in> set spk"
  shows "hd (top_10 spk) \<in> set spk \<and> Ranking (hd (top_10 spk)) \<le> Ranking r"
proof -
  let ?s = "sort_key Ranking spk"
  have ne: "?s \<noteq> []" using assms by (metis empty_iff list.set(1) set_sort)
  then obtain x xs where s: "?s = x # xs" by (cases ?s) auto
  have hd: "hd (top_10 spk) = x" by (simp add: top_10_def s)
  have "sorted (map Ranking ?s)" by simp
  then have le: "\<forall>y\<in>set xs. Ranking x \<le> Ranking y" by (simp add: s)
  have "r \<in> set ?s" using assms by simp
  then have "r = x \<or> r \<in> set xs" by (simp add: s)
  then have "Ranking x \<le> Ranking r" using le by auto
  moreover have "x \<in> set spk" by (metis s list.set_intros(1) set_sort)
  ultimately show ?thesis by (simp add: hd)
qed

subsection \<open>What a page shows\<close>

lemma total_penerima_append [simp]:
  "total_penerima (xs @ ys) = total_penerima xs @ total_penerima ys"
  by (induction xs rule: total_penerima.induct) simp_all




lemma page_wilayah_terbaik:
  assumes "hasil_spk_topsis fs = Some spk" "top_region spk = Inr reg" "top_score spk = Inr sc"
  shows "fst (app fs sb) \<noteq> Faulted IndexError \<and>
    (\<forall>w v. Metric_wilayah_terbaik w v \<in> set (snd (app fs sb)) \<longrightarrow> w = reg \<and> v = sc) \<and>
    (fst (app fs sb) = Completed \<longrightarrow> Metric_wilayah_terbaik reg sc \<in> set (snd (app fs sb)))"
  using assms
  by (rule_tac fs = fs and sb = sb in app_cases)
    (auto simp: col_left_def fig_scatter_def)

lemma page_paling_stabil:
  assumes "hasil_spk_topsis fs = Some spk" "stable_region spk = Inr w0"
  shows "(\<forall>w v. Metric_paling_stabil w v \<in> set (snd (app fs sb)) \<longrightarrow>
            w = w0 \<and> v = stable_value spk) \<and>
    (fst (app fs sb) = Completed \<longrightarrow>
       Metric_paling_stabil w0 (stable_value spk) \<in> set (snd (app fs sb)))"
  using assms
  by (rule_tac fs = fs and sb = sb in app_cases)
    (auto simp: col_left_def fig_scatter_def)

subsection \<open>Digits\<close>

lemma digit_cases: "d < 10 \<Longrightarrow> d \<in> {0, 1, 2, 3, 4, 5, 6, 7, 8, 9::nat}"
  by auto

lemma digit_char_props:
  assumes "d < 10"
  shows "is_digit (digit_char d)" "digit_val (digit_char d) = d"
  using digit_cases [OF assms]
  by (auto simp: is_digit_def digit_char_def digit_val_def digit_chars_def)

lemma is_digit_plain:
  assumes "is_digit c"
  shows "c \<noteq> comma" "c \<noteq> dquote" "c \<noteq> LF" "c \<noteq> CR" "c \<noteq> CHR ''-''" "c \<noteq> CHR ''.''"
  using assms by (auto simp: is_digit_def digit_chars_def comma_def dquote_def LF_def CR_def)

lemma digits_digits: "list_all is_digit (digits n) \<and> digits n \<noteq> []"
proof (induction n rule: digits.induct)
  case (1 n)
  show ?case
  proof (cases "n < 10")
    case True
    then show ?thesis by (simp add: digits.simps [of n] digit_char_props)
  next
    case False
    then show ?thesis using "1" by (simp add: digits.simps [of n] digit_char_props)
  qed
qed

lemma nat_of_digits_snoc:
  "nat_of_digits (s @ [c]) = 10 * nat_of_digits s + digit_val c"
  by (simp add: nat_of_digits_def)

lemma nat_of_digits_digits: "nat_of_digits (digits n) = n"
proof (induction n rule: digits.induct)
  case (1 n)
  show ?case
  proof (cases "n < 10")
    case True
    then show ?thesis
      by (simp add: digits.simps [of n] nat_of_digits_def digit_char_props)
  next
    case False
    then have "nat_of_digits (digits (n div 10)) = n div 10" using "1" by simp
    then show ?thesis using False
      by (simp add: digits.simps [of n] nat_of_digits_snoc digit_char_props)
  qed
qed

lemma parse_nat_digits: "parse_nat (digits n) = Some n"
  using digits_digits [of n] by (simp add: parse_nat_def nat_of_digits_digits)

lemma hd_digits: "\<exists>c cs. digits n = c # cs \<and> is_digit c"
  using digits_digits [of n] by (cases "digits n") auto

lemma parse_int_show_int: "parse_int (show_int i) = Some i"
proof (cases "i < 0")
  case True
  then show ?thesis by (simp add: parse_int_def show_int_def parse_nat_digits)
next
  case False
  obtain c cs where d: "digits (nat i) = c # cs" "is_digit c" using hd_digits by blast
  then have "c \<noteq> CHR ''-''" by (simp add: is_digit_plain)
  then show ?thesis
    using False parse_nat_digits [of "nat i"] by (simp add: parse_int_def show_int_def d(1))
qed

subsection \<open>Decimal fractions\<close>

lemma frac_value_Cons: "frac_value (c # ds) = (of_nat (digit_val c) + frac_value ds) / 10"
  by (simp add: frac_value_def)

lemma frac_value_Nil: "frac_value [] = 0"
  by (simp add: frac_value_def)

lemma frac_digits_decimal:
  assumes "0 \<le> y" "y < 1" "y * 10 ^ k = of_int m"
  shows "\<exists>ds. frac_digits y = Some ds \<and> list_all is_digit ds \<and> frac_value ds = y"
  using assms
proof (induction k arbitrary: y m)
  case 0
  then have "y = of_int m" by simp
  with "0.prems"(1,2) have "0 \<le> m" "m < 1" by simp_all
  then have "y = 0" using \<open>y = of_int m\<close> by simp
  then show ?case by (simp add: frac_digits.simps frac_value_Nil)
next
  case (Suc k)
  show ?case
  proof (cases "y = 0")
    case True
    then show ?thesis by (simp add: frac_digits.simps frac_value_Nil)
  next
    case False
    let ?d = "\<lfloor>10 * y\<rfloor>"
    let ?y = "10 * y - of_int ?d"
    have d0: "0 \<le> ?d" using Suc.prems(1) by simp
    have d9: "?d < 10" using Suc.prems(2) by (simp add: floor_less_iff)
    have y0: "0 \<le> ?y" by simp
    have y1: "?y < 1" by linarith
    have "?y * 10 ^ k = y * 10 ^ Suc k - of_int ?d * 10 ^ k" by (simp add: algebra_simps)
    also have "\<dots> = of_int (m - ?d * 10 ^ k)" using Suc.prems(3) by simp
    finally have yk: "?y * 10 ^ k = of_int (m - ?d * 10 ^ k)" .
    from Suc.IH [OF y0 y1 yk] obtain ds where ds: "frac_digits ?y = Some ds"
      "list_all is_digit ds" "frac_value ds = ?y" by blast
    have n: "nat ?d < 10" using d0 d9 by linarith
    have "frac_digits y = Some (digit_char (nat ?d) # ds)"
      using False ds(1) by (subst frac_digits.simps) simp
    moreover have "list_all is_digit (digit_char (nat ?d) # ds)"
      using ds(2) n by (simp add: digit_char_props)
    moreover have "frac_value (digit_char (nat ?d) # ds) = y"
      using ds(3) n d0 by (simp add: frac_value_Cons digit_char_props)
    ultimately show ?thesis by blast
  qed
qed

lemma frac_value_scaled: "\<exists>m. frac_value ds * 10 ^ length ds = of_int m"
proof (induction ds)
  case Nil
  show ?case by (simp add: frac_value_Nil)
next
  case (Cons c ds)
  then obtain m where m: "frac_value ds * 10 ^ length ds = of_int m" by blast
  have "frac_value (c # ds) * 10 ^ length (c # ds) =
      of_nat (digit_val c) * 10 ^ length ds + frac_value ds * 10 ^ length ds"
    by (simp add: frac_value_Cons algebra_simps)
  also have "\<dots> = of_int (int (digit_val c) * 10 ^ length ds + m)"
    using m by simp
  finally show ?case by blast
qed

lemma frac_value_bounds: "list_all is_digit ds \<Longrightarrow> 0 \<le> frac_value ds \<and> frac_value ds < 1"
proof (induction ds)
  case Nil
  show ?case by (simp add: frac_value_Nil)
next
  case (Cons c ds)
  then have "digit_val c < 10" "0 \<le> frac_value ds" "frac_value ds < 1"
    using digit_char_props by (auto simp: is_digit_def digit_val_def digit_chars_def)
  then show ?case by (simp add: frac_value_Cons)
qed

subsection \<open>Numbers as text\<close>

lemma decimal_uminus: "decimal x \<Longrightarrow> decimal (- x)"
  unfolding decimal_def
proof (elim exE)
  fix k m assume "x * 10 ^ k = of_int m"
  then have "- x * 10 ^ k = of_int (- m)" by simp
  then show "\<exists>k m. - x * 10 ^ k = of_int m" by blast
qed

lemma decimal_abs: "decimal x \<Longrightarrow> decimal \<bar>x\<bar>"
  using decimal_uminus [of x] by (cases "x < 0") simp_all

lemma plain_digits:
  assumes "list_all is_digit s"
  shows "\<forall>c\<in>set s. c \<noteq> comma \<and> c \<noteq> dquote \<and> c \<noteq> LF \<and> c \<noteq> CR"
  using assms by (auto simp: list_all_iff is_digit_plain)

lemma parse_unsigned_text:
  assumes "list_all is_digit ds"
  shows "parse_unsigned (digits n @ CHR ''.'' # ds) = Some (real n + frac_value ds)"
proof -
  have all: "\<forall>c\<in>set (digits n). is_digit c" and ne: "digits n \<noteq> []"
    using digits_digits [of n] by (simp_all add: list_all_iff)
  have dot: "\<not> is_digit (CHR ''.'')" by (simp add: is_digit_def digit_chars_def)
  have t: "takeWhile is_digit (digits n @ CHR ''.'' # ds) = digits n"
    using all dot by (simp add: takeWhile_append2)
  have d: "dropWhile is_digit (digits n @ CHR ''.'' # ds) = CHR ''.'' # ds"
    using all dot by (simp add: dropWhile_append2)
  show ?thesis
    using ne assms by (simp add: parse_unsigned_def t d nat_of_digits_digits Let_def)
qed

lemma show_float_round_trip:
  assumes "decimal x"
  obtains s where "show_float x = Some s" "parse_float s = Some x" "\<not> needs_quotes s"
    "s \<noteq> []"
proof -
  define a where "a = \<bar>x\<bar>"
  define n where "n = nat \<lfloor>a\<rfloor>"
  define y where "y = a - of_nat n"
  have a0: "0 \<le> a" by (simp add: a_def)
  then have fl: "of_nat n = of_int \<lfloor>a\<rfloor>" by (simp add: n_def)
  have y0: "0 \<le> y" and y1: "y < 1" unfolding y_def fl by linarith+
  from decimal_abs [OF assms] obtain k m where "a * 10 ^ k = of_int m"
    unfolding decimal_def a_def by blast
  then have "y * 10 ^ k = of_int (m - int n * 10 ^ k)"
    by (simp add: y_def algebra_simps)
  from frac_digits_decimal [OF y0 y1 this] obtain ds where ds: "frac_digits y = Some ds"
    "list_all is_digit ds" "frac_value ds = y" by blast
  define ds' where "ds' = (if ds = [] then ''0'' else ds)"
  have ds': "list_all is_digit ds'" "frac_value ds' = y" "ds' \<noteq> []"
    using ds(2,3)
    by (auto simp: ds'_def is_digit_def digit_chars_def frac_value_def digit_val_def)
  define body where "body = digits n @ CHR ''.'' # ds'"
  have body: "parse_unsigned body = Some a"
    unfolding body_def using parse_unsigned_text [OF ds'(1), of n] ds'(2) by (simp add: y_def)
  have plain_body: "\<forall>c\<in>set body. c \<noteq> comma \<and> c \<noteq> dquote \<and> c \<noteq> LF \<and> c \<noteq> CR"
    using plain_digits [OF ds'(1)] plain_digits [of "digits n"] digits_digits [of n]
    by (auto simp: body_def comma_def dquote_def LF_def CR_def)
  obtain c cs where hd: "body = c # cs" "c \<noteq> CHR ''-''"
    using hd_digits [of n] by (auto simp: body_def is_digit_plain)
  have shown: "show_float x = Some ((if x < 0 then ''-'' else []) @ body)"
    using ds(1) by (simp add: show_float_def Let_def a_def [symmetric] n_def [symmetric]
        y_def [symmetric] body_def ds'_def)
  show thesis
  proof (cases "x < 0")
    case True
    have "parse_float (CHR ''-'' # body) = Some x"
      using body True by (simp add: parse_float_def a_def)
    moreover have "\<not> needs_quotes (CHR ''-'' # body)"
      using plain_body by (auto simp: needs_quotes_def list_ex_iff comma_def dquote_def LF_def CR_def)
    ultimately show thesis using that [of "CHR ''-'' # body"] shown True by simp
  next
    case False
    have "parse_float body = Some x"
      using body False hd by (simp add: parse_float_def a_def)
    moreover have "\<not> needs_quotes body"
      using plain_body by (auto simp: needs_quotes_def list_ex_iff)
    ultimately show thesis using that [of body] shown False hd(1) by simp
  qed
qed

lemma parse_unsigned_decimal:
  assumes "parse_unsigned s = Some v"
  shows "decimal v"
proof -
  let ?w = "takeWhile is_digit s"
  from assms consider "v = real (nat_of_digits ?w)"
    | ds where "v = real (nat_of_digits ?w) + frac_value ds"
    by (auto simp: parse_unsigned_def Let_def split: if_splits list.splits)
  then show ?thesis
  proof cases
    case 1
    then have "v * 10 ^ 0 = of_int (int (nat_of_digits ?w))" by simp
    then show ?thesis unfolding decimal_def by blast
  next
    case (2 ds)
    obtain m where m: "frac_value ds * 10 ^ length ds = of_int m"
      using frac_value_scaled by blast
    have "v * 10 ^ length ds = of_int (int (nat_of_digits ?w) * 10 ^ length ds + m)"
      using m by (simp add: 2 algebra_simps)
    then show ?thesis unfolding decimal_def by blast
  qed
qed

lemma parse_float_decimal:
  assumes "parse_float s = Some x"
  shows "decimal x"
  using assms parse_unsigned_decimal decimal_uminus
  by (auto simp: parse_float_def split: list.splits if_splits)

subsection \<open>Reading what the writer wrote\<close>

lemma special_chars: "comma \<noteq> dquote" "comma \<noteq> LF" "dquote \<noteq> LF" "dquote \<noteq> comma"
  "LF \<noteq> comma" "LF \<noteq> dquote"
  by (simp_all add: comma_def dquote_def LF_def)

lemma tokenize_in_field:
  assumes "\<forall>c\<in>set g. c \<noteq> comma \<and> c \<noteq> LF"
  shows "tokenize In_field fld row rows (g @ comma # rest) =
           tokenize Start_field [] (rev (rev g @ fld) # row) rows rest"
    and "tokenize In_field fld row rows (g @ LF # rest) =
           tokenize Start_field [] [] (rev (rev (rev g @ fld) # row) # rows) rest"
  using assms by (induction g arbitrary: fld) (simp_all add: special_chars)

lemma tokenize_in_quoted:
  shows "tokenize In_quoted fld row rows (escape g @ dquote # comma # rest) =
           tokenize Start_field [] (rev (rev g @ fld) # row) rows rest"
    and "tokenize In_quoted fld row rows (escape g @ dquote # LF # rest) =
           tokenize Start_field [] [] (rev (rev (rev g @ fld) # row) # rows) rest"
  by (induction g arbitrary: fld) (simp_all add: special_chars)

lemma tokenize_field_comma:
  "tokenize Start_field [] row rows (quote_field f @ comma # rest) =
     tokenize Start_field [] (f # row) rows rest"
proof (cases "needs_quotes f")
  case True
  then show ?thesis
    using tokenize_in_quoted(1) [of "[]" row rows f rest] by (simp add: quote_field_def)
next
  case False
  then have plain: "\<forall>c\<in>set f. c \<noteq> comma \<and> c \<noteq> dquote \<and> c \<noteq> LF"
    by (auto simp: needs_quotes_def list_ex_iff)
  show ?thesis
  proof (cases f)
    case Nil
    then show ?thesis using False by (simp add: quote_field_def special_chars)
  next
    case (Cons c g)
    then have "\<forall>c\<in>set g. c \<noteq> comma \<and> c \<noteq> LF" using plain by simp
    from tokenize_in_field(1) [OF this, of "[c]" row rows rest]
    show ?thesis using False plain Cons by (simp add: quote_field_def)
  qed
qed

lemma tokenize_field_LF:
  assumes "row \<noteq> []"
  shows "tokenize Start_field [] row rows (quote_field f @ LF # rest) =
     tokenize Start_field [] [] (rev (f # row) # rows) rest"
proof (cases "needs_quotes f")
  case True
  then show ?thesis
    using tokenize_in_quoted(2) [of "[]" row rows f rest] by (simp add: quote_field_def)
next
  case False
  then have plain: "\<forall>c\<in>set f. c \<noteq> comma \<and> c \<noteq> dquote \<and> c \<noteq> LF"
    by (auto simp: needs_quotes_def list_ex_iff)
  show ?thesis
  proof (cases f)
    case Nil
    then show ?thesis using False assms by (simp add: quote_field_def special_chars)
  next
    case (Cons c g)
    then have "\<forall>c\<in>set g. c \<noteq> comma \<and> c \<noteq> LF" using plain by simp
    from tokenize_in_field(2) [OF this, of "[c]" row rows rest]
    show ?thesis using False plain Cons by (simp add: quote_field_def)
  qed
qed

lemma tokenize_fields:
  assumes "fs \<noteq> []" "row \<noteq> [] \<or> 2 \<le> length fs"
  shows "tokenize Start_field [] row rows (join_fields (map quote_field fs) @ rest) =
     tokenize Start_field [] [] (rev (rev fs @ row) # rows) rest"
  using assms
proof (induction fs arbitrary: row)
  case Nil
  then show ?case by simp
next
  case (Cons f fs)
  show ?case
  proof (cases fs)
    case Nil
    then have "row \<noteq> []" using Cons.prems(2) by simp
    then show ?thesis using Nil tokenize_field_LF [of row rows f rest] by simp
  next
    case (Cons g gs)
    have "tokenize Start_field [] row rows (join_fields (map quote_field (f # fs)) @ rest) =
        tokenize Start_field [] (f # row) rows (join_fields (map quote_field fs) @ rest)"
      using Cons tokenize_field_comma [of row rows f] by simp
    also have "\<dots> = tokenize Start_field [] [] (rev (rev fs @ f # row) # rows) rest"
      using Cons.IH [of "f # row"] Cons by simp
    finally show ?thesis by simp
  qed
qed

lemma tokenize_line:
  assumes "2 \<le> length fs"
  shows "tokenize Start_field [] [] rows (csv_line fs @ rest) =
     tokenize Start_field [] [] (fs # rows) rest"
proof -
  have "fs \<noteq> []" using assms by auto
  from tokenize_fields [OF this, of "[]" rows rest] assms show ?thesis
    by (simp add: csv_line_def)
qed

lemma tokenize_lines:
  assumes "\<forall>fs\<in>set ls. 2 \<le> length fs"
  shows "tokenize Start_field [] [] rows (concat (map csv_line ls)) = Some (rev rows @ ls)"
  using assms
proof (induction ls arbitrary: rows)
  case Nil
  show ?case by simp
next
  case (Cons fs ls)
  then have "tokenize Start_field [] [] rows (csv_line fs @ concat (map csv_line ls)) =
      tokenize Start_field [] [] (fs # rows) (concat (map csv_line ls))"
    using tokenize_line [of fs rows] by simp
  then show ?case using Cons by simp
qed

subsection \<open>A table as text and back\<close>

lemma tokenize_chars:
  assumes "tokenize st fld row rows inp = Some out" "CR \<notin> set inp" "CR \<notin> set fld"
    "\<forall>f\<in>set row. CR \<notin> set f" "\<forall>r\<in>set rows. \<forall>f\<in>set r. CR \<notin> set f"
  shows "\<forall>r\<in>set out. \<forall>f\<in>set r. CR \<notin> set f"
  using assms
  by (induction st fld row rows inp arbitrary: out rule: tokenize.induct)
    (auto split: if_splits)

lemma show_int_plain: "CR \<notin> set (show_int i)"
  using plain_digits [of "digits n" for n] digits_digits
  by (auto simp: show_int_def CR_def)

lemma needs_quotes_CR: "\<not> needs_quotes s \<Longrightarrow> CR \<notin> set s"
  by (auto simp: needs_quotes_def list_ex_iff)

lemma row_round_trip:
  assumes "well_formed r"
  obtains fs where "row_fields r = Some fs" "length fs = 7" "parse_row fs = Some r"
    "\<forall>f\<in>set fs. CR \<notin> set f"
proof -
  from assms have w: "Wilayah_spk r \<notin> set na_values" "CR \<notin> set (Wilayah_spk r)"
    and d: "decimal (Skor_TOPSIS r)" "decimal (C1_Volume r)" "decimal (C2_Efektivitas r)"
      "decimal (C3_Tren_Pertumbuhan r)" "decimal (C4_Stabilitas r)"
    by (simp_all add: well_formed_def)
  from show_float_round_trip [OF d(1)] obtain s0 where s0: "show_float (Skor_TOPSIS r) = Some s0"
    "parse_float s0 = Some (Skor_TOPSIS r)" "\<not> needs_quotes s0" by blast
  from show_float_round_trip [OF d(2)] obtain s1 where s1: "show_float (C1_Volume r) = Some s1"
    "parse_float s1 = Some (C1_Volume r)" "\<not> needs_quotes s1" by blast
  from show_float_round_trip [OF d(3)] obtain s2 where s2: "show_float (C2_Efektivitas r) = Some s2"
    "parse_float s2 = Some (C2_Efektivitas r)" "\<not> needs_quotes s2" by blast
  from show_float_round_trip [OF d(4)] obtain s3 where s3: "show_float (C3_Tren_Pertumbuhan r) = Some s3"
    "parse_float s3 = Some (C3_Tren_Pertumbuhan r)" "\<not> needs_quotes s3" by blast
  from show_float_round_trip [OF d(5)] obtain s4 where s4: "show_float (C4_Stabilitas r) = Some s4"
    "parse_float s4 = Some (C4_Stabilitas r)" "\<not> needs_quotes s4" by blast
  let ?fs = "[Wilayah_spk r, show_int (Ranking r), s0, s1, s2, s3, s4]"
  have 1: "row_fields r = Some ?fs"
    by (simp add: row_fields_def s0(1) s1(1) s2(1) s3(1) s4(1))
  have 2: "parse_row ?fs = Some r"
    using w(1) by (simp add: parse_row_def parse_int_show_int s0(2) s1(2) s2(2) s3(2) s4(2))
  have 3: "\<forall>f\<in>set ?fs. CR \<notin> set f"
    using w(2) show_int_plain needs_quotes_CR [OF s0(3)] needs_quotes_CR [OF s1(3)]
      needs_quotes_CR [OF s2(3)] needs_quotes_CR [OF s3(3)] needs_quotes_CR [OF s4(3)]
    by simp
  show thesis by (rule that [OF 1 _ 2 3]) simp
qed

lemma rows_round_trip:
  assumes "list_all well_formed t"
  shows "\<exists>rows. those (map row_fields t) = Some rows \<and>
    (\<forall>fs\<in>set rows. length fs = 7 \<and> (\<forall>f\<in>set fs. CR \<notin> set f)) \<and>
    those (map parse_row rows) = Some t"
  using assms
proof (induction t)
  case Nil
  show ?case by simp
next
  case (Cons r t)
  then obtain rows where rows: "those (map row_fields t) = Some rows"
    "\<forall>fs\<in>set rows. length fs = 7 \<and> (\<forall>f\<in>set fs. CR \<notin> set f)"
    "those (map parse_row rows) = Some t" by auto
  from Cons.prems have "well_formed r" by simp
  then obtain fs where fs: "row_fields r = Some fs" "length fs = 7" "parse_row fs = Some r"
    "\<forall>f\<in>set fs. CR \<notin> set f" by (rule row_round_trip)
  have "those (map row_fields (r # t)) = Some (fs # rows)" by (simp add: fs(1) rows(1))
  moreover have "those (map parse_row (fs # rows)) = Some (r # t)" by (simp add: fs(3) rows(3))
  ultimately show ?case using fs(2,4) rows(2) by auto
qed

lemma quote_field_chars: "set (quote_field f) \<subseteq> insert dquote (set f)"
  by (auto simp: quote_field_def split: if_splits)

lemma join_fields_chars: "set (join_fields fs) \<subseteq> insert comma (insert LF (\<Union>f\<in>set fs. set f))"
  by (induction fs rule: join_fields.induct) auto

lemma csv_line_CR:
  assumes "\<forall>f\<in>set fs. CR \<notin> set f"
  shows "CR \<notin> set (csv_line fs)"
proof
  assume "CR \<in> set (csv_line fs)"
  then have "CR \<in> insert comma (insert LF (\<Union>f\<in>set (map quote_field fs). set f))"
    using join_fields_chars [of "map quote_field fs"] by (auto simp: csv_line_def)
  then obtain f where "f \<in> set fs" "CR \<in> set (quote_field f)"
    by (auto simp: CR_def comma_def LF_def)
  then show False using quote_field_chars [of f] assms by (auto simp: CR_def dquote_def)
qed

lemma columns_plain: "length columns = 7" "\<forall>f\<in>set columns. CR \<notin> set f"
  by (simp_all add: columns_def CR_def)

lemma well_formed_round_trip:
  assumes "list_all well_formed t"
  obtains exported where "to_csv t = Some exported" "read_csv exported = Some t"
proof -
  from rows_round_trip [OF assms] obtain rows where rows: "those (map row_fields t) = Some rows"
    "\<forall>fs\<in>set rows. length fs = 7 \<and> (\<forall>f\<in>set fs. CR \<notin> set f)"
    "those (map parse_row rows) = Some t" by blast
  define exported where "exported = concat (map csv_line (columns # rows))"
  have w: "to_csv t = Some exported" by (simp add: to_csv_def rows(1) exported_def)
  have "\<forall>fs\<in>set (columns # rows). 2 \<le> length fs" using rows(2) columns_plain(1) by auto
  from tokenize_lines [OF this, of "[]"]
  have tok: "tokenize Start_field [] [] [] exported = Some (columns # rows)"
    by (simp add: exported_def)
  have cr: "CR \<notin> set exported"
    using csv_line_CR rows(2) columns_plain(2) by (auto simp: exported_def)
  have "read_csv exported = Some t" using cr by (simp add: read_csv_def tok rows(3))
  with w show thesis by (rule that)
qed

lemma those_map_Some:
  "those (map f xs) = Some ys \<Longrightarrow> length ys = length xs \<and> (\<forall>i<length xs. f (xs ! i) = Some (ys ! i))"
proof (induction xs arbitrary: ys)
  case Nil
  then show ?case by simp
next
  case (Cons x xs)
  then obtain y ys' where y: "f x = Some y" "those (map f xs) = Some ys'" "ys = y # ys'"
    by (auto split: option.splits)
  from Cons.IH [OF y(2)] show ?case using y(1,3) by (auto simp: nth_Cons split: nat.splits)
qed

lemma parse_row_well_formed:
  assumes "parse_row fs = Some r" "\<forall>f\<in>set fs. CR \<notin> set f"
  shows "well_formed r"
proof -
  from assms(1) obtain w a s c1 c2 c3 c4 where fs: "fs = [w, a, s, c1, c2, c3, c4]"
    by (auto simp: parse_row_def split: list.splits)
  from assms(1) have na: "w \<notin> set na_values"
    by (auto simp: parse_row_def fs split: if_splits)
  from assms(1) na obtain rank where r: "parse_int a = Some rank"
    "parse_float s = Some (Skor_TOPSIS r)" "parse_float c1 = Some (C1_Volume r)"
    "parse_float c2 = Some (C2_Efektivitas r)" "parse_float c3 = Some (C3_Tren_Pertumbuhan r)"
    "parse_float c4 = Some (C4_Stabilitas r)" "Wilayah_spk r = w"
    by (auto simp: parse_row_def fs split: option.splits list.splits)
  show ?thesis
    using na r assms(2) parse_float_decimal by (auto simp: well_formed_def fs)
qed

lemma read_csv_well_formed:
  assumes "read_csv text = Some t"
  shows "list_all well_formed t"
proof -
  from assms have cr: "CR \<notin> set text" by (auto simp: read_csv_def split: if_splits)
  with assms obtain header rows where tok: "tokenize Start_field [] [] [] text = Some (header # rows)"
    and rows: "those (map parse_row rows) = Some t"
    by (auto simp: read_csv_def split: if_splits option.splits list.splits)
  from tokenize_chars [OF tok cr] have plain: "\<forall>r\<in>set rows. \<forall>f\<in>set r. CR \<notin> set f" by simp
  from those_map_Some [OF rows] have len: "length t = length rows"
    and each: "\<forall>i<length rows. parse_row (rows ! i) = Some (t ! i)" by simp_all
  have "well_formed (t ! i)" if "i < length t" for i
  proof -
    have "parse_row (rows ! i) = Some (t ! i)" using each that len by simp
    moreover have "rows ! i \<in> set rows" using that len by simp
    then have "\<forall>f\<in>set (rows ! i). CR \<notin> set f" using plain by blast
    ultimately show ?thesis by (rule parse_row_well_formed)
  qed
  then show ?thesis by (simp add: list_all_length)
qed

lemma load_export_reload:
  "Option.bind (read_csv text) (\<lambda>t. Option.bind (to_csv t) read_csv) = read_csv text"
proof (cases "read_csv text")
  case None
  then show ?thesis by simp
next
  case (Some t)
  from well_formed_round_trip [OF read_csv_well_formed [OF Some]]
  obtain out where "to_csv t = Some out" "read_csv out = Some t" by blast
  then show ?thesis using Some by simp
qed

lemmas csv_eval =
  read_csv_def columns_def comma_def dquote_def LF_def CR_def parse_row_def na_values_def
  parse_int_def parse_float_def parse_unsigned_def parse_nat_def nat_of_digits_def
  digit_val_def digit_chars_def is_digit_def frac_value_def to_csv_def row_fields_def
  show_float_def show_int_def digits.simps digit_char_def frac_digits.simps csv_line_def
  quote_field_def needs_quotes_def

text \<open>
  The table must be one that was read: a table built by hand around a region named
  \<open>NA\<close> is written, and read back with a missing cell. The program cannot hold such a
  table, since \<open>read_csv\<close> gives it none.
\<close>

lemma export_of_missing_value_name:
  "Option.bind (to_csv scenario_na_name) read_csv = None"
  by (simp add: scenario_na_name_def scenario_region_def csv_eval)

lemma download_on_completed:
  assumes "hasil_spk_topsis fs = Some t" "fst (app fs sb) = Completed"
  shows "St_download_button t \<in> set (snd (app fs sb))"
  using assms
  by (rule_tac fs = fs and sb = sb in app_cases) auto

section \<open>The filter\<close>

text \<open>
  C1. For every time-series table, every list of selected regions (read as the set R
  of its members) and every pair of year bounds, the rows of the filtered table are
  exactly the rows of the table whose region is in R and whose year lies between the
  bounds, both included.
\<close>

theorem df_ts_filtered_exact:
  "set (df_ts_filtered ts regions (lo, hi)) =
     {r. r \<in> set ts \<and> Wilayah r \<in> set regions \<and> lo \<le> Tahun r \<and> Tahun r \<le> hi}"
  by (auto simp: df_ts_filtered_def)

section \<open>The total of the latest year\<close>




section \<open>The ranking chart\<close>

text \<open>
  C3, as amended. For a ranking table of N rows with distinct ranks, the bar chart is
  built from min(10, N) rows of the table, in strictly increasing order of \<open>Ranking\<close>,
  and every row left out has a greater rank than every row taken. The axis is
  reversed, so the rows appear from top to bottom in that order: the row at the top
  has the least rank of the table. It is the row of rank 1 when the table has one and
  no rank is below 1; distinct ranks alone do not make it so, as the table
  \<open>scenario_rank_zero\<close> shows, where the row of rank 0 is above the row of rank 1.
\<close>

theorem ranking_chart_top_10:
  assumes "distinct (map Ranking spk)"
  shows "length (data_frame (fig_bar spk)) = min 10 (length spk) \<and>
    set (data_frame (fig_bar spk)) \<subseteq> set spk \<and>
    sorted_wrt (<) (map Ranking (data_frame (fig_bar spk))) \<and>
    (\<forall>r\<in>set (data_frame (fig_bar spk)). \<forall>r'\<in>set spk - set (data_frame (fig_bar spk)).
        Ranking r < Ranking r') \<and>
    yaxis_autorange_reversed (fig_bar spk) \<and>
    top_to_bottom (fig_bar spk) = data_frame (fig_bar spk) \<and>
    (\<forall>r\<in>set spk. Ranking (hd (top_to_bottom (fig_bar spk))) \<le> Ranking r) \<and>
    (\<forall>r\<in>set spk. Ranking r = 1 \<and> (\<forall>r'\<in>set spk. 1 \<le> Ranking r') \<longrightarrow>
        hd (top_to_bottom (fig_bar spk)) = r)"
proof -
  have df: "data_frame (fig_bar spk) = top_10 spk" by (simp add: fig_bar_def)
  have ttb: "top_to_bottom (fig_bar spk) = top_10 spk" by (simp add: top_to_bottom_def fig_bar_def)
  have len: "length (top_10 spk) = min 10 (length spk)" by (simp add: top_10_def min.commute)
  have sub: "set (top_10 spk) \<subseteq> set spk"
    using set_take_subset [of 10 "sort_key Ranking spk"] by (simp add: top_10_def)
  have first: "hd (top_10 spk) = r"
    if r: "r \<in> set spk" "Ranking r = 1" "\<forall>r'\<in>set spk. 1 \<le> Ranking r'" for r
  proof -
    from top_10_hd_least [OF r(1)]
    have h: "hd (top_10 spk) \<in> set spk" "Ranking (hd (top_10 spk)) \<le> Ranking r" by simp_all
    then have "Ranking (hd (top_10 spk)) = Ranking r" using r(2,3) by fastforce
    moreover have "inj_on Ranking (set spk)" using assms by (simp add: distinct_map)
    ultimately show ?thesis using h(1) r(1) by (simp add: inj_on_def)
  qed
  have rev: "yaxis_autorange_reversed (fig_bar spk)" by (simp add: fig_bar_def)
  show ?thesis
    unfolding df ttb
    using rev len sub top_10_strict [OF assms] top_10_before_rest [OF assms] top_10_hd_least first
    by (simp add: Ball_def)
qed

theorem ranking_chart_top_10_witness:
  "distinct (map Ranking scenario_eleven) \<and>
   length scenario_eleven = 11 \<and>
   map Ranking (data_frame (fig_bar scenario_eleven)) = [1, 2, 3, 4, 5, 6, 7, 8, 9, 10] \<and>
   Ranking (hd (top_to_bottom (fig_bar scenario_eleven))) = 1"
proof -
  have d: "distinct (map Ranking scenario_eleven)"
    by (simp add: scenario_eleven_def scenario_region_def)
  have m: "map Ranking (data_frame (fig_bar scenario_eleven)) = [1, 2, 3, 4, 5, 6, 7, 8, 9, 10]"
    by (simp add: scenario_eleven_def scenario_region_def fig_bar_def top_10_def)
  have t: "top_to_bottom (fig_bar scenario_eleven) = data_frame (fig_bar scenario_eleven)"
    using ranking_chart_top_10 [OF d] by blast
  have "data_frame (fig_bar scenario_eleven) \<noteq> []" using m by auto
  then have "Ranking (hd (top_to_bottom (fig_bar scenario_eleven))) = 1"
    using m t by (simp add: hd_map [symmetric])
  then show ?thesis using d m by (simp add: scenario_eleven_def)
qed

theorem ranking_chart_rank_zero_counterexample:
  "distinct (map Ranking scenario_rank_zero) \<and>
   map Ranking (top_to_bottom (fig_bar scenario_rank_zero)) = [0, 1] \<and>
   map Wilayah_spk (top_to_bottom (fig_bar scenario_rank_zero)) = [''B'', ''A''] \<and>
   fst (app (scenario_files scenario_rank_zero) (scenario_sidebar [''A''])) = Completed \<and>
   Plotly_chart_bar (fig_bar scenario_rank_zero)
     \<in> set (snd (app (scenario_files scenario_rank_zero) (scenario_sidebar [''A''])))"
  by (simp add: scenario_rank_zero_def scenario_region_def fig_bar_def top_10_def
      top_to_bottom_def scenario_files_def scenario_sidebar_def scenario_ts_def
      app_def load_data_def script_unfold min_year_def max_year_def
      top_region_def top_score_def values0_def stable_region_def idxmin_def loc_def)

section \<open>The export and its round trip\<close>

text \<open>
  C4. The ranking table in memory is the table that \<open>read_csv\<close> gave for the ranking file.
  For every such table the export has a text, and reading that text gives the table
  again, value for value. On a pass that completes, the download button holds this very
  table, so what it serves is that text: the raw values, as they were read, and not
  the strings that the styled table shows.
\<close>

theorem export_round_trip:
  assumes "read_csv content = Some t"
  shows "\<exists>exported. to_csv t = Some exported \<and> read_csv exported = Some t \<and>
    (\<forall>fs sb. hasil_spk_topsis fs = Some t \<and> fst (app fs sb) = Completed \<longrightarrow>
       St_download_button t \<in> set (snd (app fs sb)) \<and>
       download_data (St_download_button t) = Some exported)"
proof -
  from well_formed_round_trip [OF read_csv_well_formed [OF assms]]
  obtain exported where e: "to_csv t = Some exported" "read_csv exported = Some t" by blast
  have "download_data (St_download_button t) = Some exported"
    by (simp add: download_data_def csv_def e(1))
  then show ?thesis using e download_on_completed by blast
qed

theorem export_round_trip_witness:
  "read_csv scenario_csv = Some scenario_csv_table \<and>
   to_csv scenario_csv_table = Some scenario_csv \<and>
   fst (app (scenario_files_with scenario_ts_csv scenario_csv_table) (scenario_sidebar [])) =
     Completed \<and>
   St_download_button scenario_csv_table
     \<in> set (snd (app (scenario_files_with scenario_ts_csv scenario_csv_table) (scenario_sidebar []))) \<and>
   download_data (St_download_button scenario_csv_table) = Some scenario_csv"
proof -
  let ?fs = "scenario_files_with scenario_ts_csv scenario_csv_table"
  have r: "read_csv scenario_csv = Some scenario_csv_table"
    by (simp add: scenario_csv_def scenario_csv_table_def csv_eval)
  have w: "to_csv scenario_csv_table = Some scenario_csv"
    by (simp add: scenario_csv_def scenario_csv_table_def csv_eval)
  have f: "hasil_spk_topsis ?fs = Some scenario_csv_table"
    by (simp add: scenario_files_with_def)
  have c: "fst (app ?fs (scenario_sidebar [])) = Completed"
    by (simp add: scenario_files_with_def scenario_ts_csv_def scenario_csv_table_def
        scenario_sidebar_def app_def load_data_def script_unfold
        min_year_def max_year_def top_region_def top_score_def values0_def stable_region_def
        idxmin_def loc_def)
  from export_round_trip [OF r] obtain exported where e:
    "to_csv scenario_csv_table = Some exported"
    "St_download_button scenario_csv_table \<in> set (snd (app ?fs (scenario_sidebar [])))"
    "download_data (St_download_button scenario_csv_table) = Some exported"
    using f c by blast
  have "exported = scenario_csv" using e(1) w by simp
  then show ?thesis using r w c e by simp
qed

section \<open>A ranking table with no first rank\<close>

text \<open>
  C5. When no row of the ranking table has \<open>Ranking\<close> 1 (the empty table included), the
  two reads of the rank-1 KPI raise \<^verbatim>\<open>IndexError\<close>. Nothing catches it: the pass ends
  faulted, and when the widgets accept their arguments (every region of the ranking
  table has a time-series row, two rows differ in their year) it ends with that
  \<^verbatim>\<open>IndexError\<close> after the first two KPIs, before any chart or table.
\<close>

theorem no_first_rank_faults:
  assumes "\<forall>r\<in>set spk. Ranking r \<noteq> 1"
    and "data_timeseries_bansos_jabar fs = Some ts" and "hasil_spk_topsis fs = Some spk"
  shows "top_region spk = Inl IndexError \<and> top_score spk = Inl IndexError \<and>
    (\<exists>e page. app fs sb = (Faulted e, page)) \<and>
    (Wilayah_spk ` set spk \<subseteq> Wilayah ` set ts \<and>
     (\<exists>r\<in>set ts. \<exists>r'\<in>set ts. Tahun r \<noteq> Tahun r') \<longrightarrow>
       app fs sb = (Faulted IndexError,
         [Metric_total_penerima (total_realisasi_2024 ts (Max (Tahun ` set ts))),
          Metric_rata_rata_efektivitas (avg_eff spk)]))"
proof -
  have r: "top_region spk = Inl IndexError"
    unfolding top_region_def using assms(1) by (rule values0_filter_none)
  have s: "top_score spk = Inl IndexError"
    unfolding top_score_def using assms(1) by (rule values0_filter_none)
  have f: "app fs sb = (Faulted IndexError,
         [Metric_total_penerima (total_realisasi_2024 ts (Max (Tahun ` set ts))),
          Metric_rata_rata_efektivitas (avg_eff spk)])"
    if "Wilayah_spk ` set spk \<subseteq> Wilayah ` set ts"
      "\<exists>r\<in>set ts. \<exists>r'\<in>set ts. Tahun r \<noteq> Tahun r'"
  proof -
    from that(2) obtain a b where ab: "a \<in> set ts" "b \<in> set ts" "Tahun a \<noteq> Tahun b" by blast
    show ?thesis
      using assms(2,3) default_among_options [OF that(1)] two_years [OF ab] r
      by (rule app_faults_at_top)
  qed
  have "\<exists>e page. app fs sb = (Faulted e, page)"
  proof (cases "set (take 5 (map Wilayah_spk (sort_key Ranking spk))) \<subseteq> Wilayah ` set ts")
    case False
    then show ?thesis using app_refused_multiselect [OF assms(2,3)] by blast
  next
    case opt: True
    show ?thesis
    proof (cases "ts = []")
      case True
      then show ?thesis using app_empty_ts [of fs spk sb] assms(2,3) by blast
    next
      case ne: False
      show ?thesis
      proof (cases "Min (Tahun ` set ts) < Max (Tahun ` set ts)")
        case False
        then show ?thesis using app_refused_slider [OF assms(2,3) opt ne] by blast
      next
        case True
        then show ?thesis using app_faults_at_top [OF assms(2,3) opt ne True r] by blast
      qed
    qed
  qed
  then show ?thesis using r s f by blast
qed

theorem no_first_rank_faults_witness:
  "filter (\<lambda>r. Ranking r = 1) scenario_no_first = [] \<and>
   top_region scenario_no_first = Inl IndexError \<and>
   app (scenario_files scenario_no_first) (scenario_sidebar [''A'']) =
     (Faulted IndexError, [Metric_total_penerima 35, Metric_rata_rata_efektivitas (Some 80)]) \<and>
   top_region [] = Inl IndexError \<and>
   app (scenario_files []) (scenario_sidebar [''A'']) =
     (Faulted IndexError, [Metric_total_penerima 35, Metric_rata_rata_efektivitas None])"
proof -
  have rows: "scenario_ts ! 0 \<in> set scenario_ts" "scenario_ts ! 1 \<in> set scenario_ts"
    "Tahun (scenario_ts ! 0) \<noteq> Tahun (scenario_ts ! 1)"
    by (simp_all add: scenario_ts_def)
  then have p2: "\<exists>r\<in>set scenario_ts. \<exists>r'\<in>set scenario_ts. Tahun r \<noteq> Tahun r'"
    by blast
  have p1: "Wilayah_spk ` set scenario_no_first \<subseteq> Wilayah ` set scenario_ts"
    "Wilayah_spk ` set [] \<subseteq> Wilayah ` set scenario_ts"
    by (simp_all add: scenario_no_first_def scenario_region_def scenario_ts_def)
  have h: "\<forall>r\<in>set scenario_no_first. Ranking r \<noteq> 1" "\<forall>r\<in>set ([] :: spk_row list). Ranking r \<noteq> 1"
    by (simp_all add: scenario_no_first_def scenario_region_def)
  have v: "total_realisasi_2024 scenario_ts (Max (Tahun ` set scenario_ts)) = 35"
    "avg_eff scenario_no_first = Some 80" "avg_eff [] = None"
    by (simp_all add: total_realisasi_2024_def scenario_ts_def avg_eff_def mean_def
        scenario_no_first_def scenario_region_def)
  have f: "data_timeseries_bansos_jabar (scenario_files spk) = Some scenario_ts"
    "hasil_spk_topsis (scenario_files spk) = Some spk" for spk
    by (simp_all add: scenario_files_def)
  show ?thesis
    using no_first_rank_faults [OF h(1) f, of "scenario_sidebar [''A'']"]
      no_first_rank_faults [OF h(2) f, of "scenario_sidebar [''A'']"] p1 p2
    unfolding v by (simp add: scenario_no_first_def scenario_region_def)
qed

section \<open>An empty selection\<close>

text \<open>
  C6. When no region is selected, the filtered table is empty for every time-series
  table and year range, and the trend branch yields the notice. The empty selection
  raises nothing: the pass completes whenever it completes for some other state \<open>sb'\<close> of
  the sidebar. On its page there is no line chart, and a pass that completes shows the
  notice.
\<close>

theorem empty_selection_notice:
  assumes "selected_regions sb = []"
  shows "df_ts_filtered ts (selected_regions sb) (selected_years sb) = [] \<and>
    col_left (df_ts_filtered ts (selected_regions sb) (selected_years sb)) =
      St_warning ''Silakan pilih wilayah di sidebar untuk melihat grafik.'' \<and>
    (fst (app fs sb') = Completed \<longrightarrow> fst (app fs sb) = Completed) \<and>
    (\<forall>rows. Plotly_chart_line rows \<notin> set (snd (app fs sb))) \<and>
    (fst (app fs sb) = Completed \<longrightarrow>
       St_warning ''Silakan pilih wilayah di sidebar untuk melihat grafik.'' \<in> set (snd (app fs sb)))"
proof -
  have empty: "df_ts_filtered t (selected_regions sb) (selected_years sb) = []" for t
    using assms by (simp add: df_ts_filtered_def)
  have page: "(\<forall>rows. Plotly_chart_line rows \<notin> set (snd (app fs sb))) \<and>
    (fst (app fs sb) = Completed \<longrightarrow>
       St_warning ''Silakan pilih wilayah di sidebar untuk melihat grafik.'' \<in> set (snd (app fs sb)))"
    by (rule app_cases [of fs sb]) (simp_all add: empty col_left_def fig_scatter_def)
  show ?thesis
    using page app_status_independent [of fs sb sb'] by (simp add: empty col_left_def)
qed

theorem empty_selection_notice_witness:
  "selected_regions (scenario_sidebar []) = [] \<and>
   df_ts_filtered scenario_ts [] (2023, 2024) = [] \<and>
   app (scenario_files scenario_spk) (scenario_sidebar []) =
     (Completed,
      [Metric_total_penerima 35,
       Metric_rata_rata_efektivitas (Some 80),
       Metric_wilayah_terbaik ''A'' 0.9,
       Metric_paling_stabil ''B'' (Some 4),
       St_warning ''Silakan pilih wilayah di sidebar untuk melihat grafik.'',
       Plotly_chart_bar (fig_bar scenario_spk),
       fig_scatter scenario_spk,
       St_dataframe scenario_spk,
       St_download_button scenario_spk])"
  using empty_selection_notice
    [of "scenario_sidebar []" scenario_ts "scenario_files scenario_spk" "scenario_sidebar []"]
  by (simp add: scenario_sidebar_def scenario_files_def scenario_ts_def scenario_spk_def
      scenario_region_def app_def load_data_def script_unfold min_year_def max_year_def
      df_ts_filtered_def total_realisasi_2024_def avg_eff_def mean_def top_region_def
      top_score_def values0_def stable_region_def idxmin_def loc_def stable_value_def
      col_left_def fig_bar_def top_10_def)

section \<open>An absent file\<close>

text \<open>
  C7. When either file is absent, the loader puts the error message on the page and
  returns \<^verbatim>\<open>None, None\<close>; the pass stops there, with the message as the only element of
  the page.
\<close>

theorem absent_file_stops:
  assumes "data_timeseries_bansos_jabar fs = None \<or> hasil_spk_topsis fs = None"
  shows "load_data fs = ([St_error file_not_found_message], None, None) \<and>
         app fs sb = (Stopped, [St_error file_not_found_message])"
  using assms by (auto simp: load_data_def app_def split: option.splits)

theorem absent_file_stops_witness:
  "hasil_spk_topsis \<lparr>data_timeseries_bansos_jabar = Some scenario_ts, hasil_spk_topsis = None\<rparr> = None \<and>
   app \<lparr>data_timeseries_bansos_jabar = Some scenario_ts, hasil_spk_topsis = None\<rparr>
       (scenario_sidebar [''A'']) = (Stopped, [St_error file_not_found_message]) \<and>
   data_timeseries_bansos_jabar
     \<lparr>data_timeseries_bansos_jabar = None, hasil_spk_topsis = Some scenario_spk\<rparr> = None \<and>
   app \<lparr>data_timeseries_bansos_jabar = None, hasil_spk_topsis = Some scenario_spk\<rparr>
       (scenario_sidebar [''A'']) = (Stopped, [St_error file_not_found_message])"
  using absent_file_stops
    [of "\<lparr>data_timeseries_bansos_jabar = Some scenario_ts, hasil_spk_topsis = None\<rparr>"
        "scenario_sidebar [''A'']"]
    absent_file_stops
    [of "\<lparr>data_timeseries_bansos_jabar = None, hasil_spk_topsis = Some scenario_spk\<rparr>"
        "scenario_sidebar [''A'']"]
  by simp

section \<open>The most stable region\<close>

text \<open>
  C8. For a ranking table with a row, the KPI of the most stable region reports the
  region of a row whose \<open>C4_Stabilitas\<close> is least in the table, every row before it has
  a strictly greater value (so it is the first such row), and the value reported is
  that least value, the minimum of the column. A page of a pass over this table shows
  no other region or value for this KPI, and a pass that completes shows them.
\<close>

theorem stable_region_minimal:
  assumes "spk \<noteq> []"
  shows "\<exists>i<length spk.
    stable_region spk = Inr (Wilayah_spk (spk ! i)) \<and>
    (\<forall>j<length spk. C4_Stabilitas (spk ! i) \<le> C4_Stabilitas (spk ! j)) \<and>
    (\<forall>j<i. C4_Stabilitas (spk ! i) < C4_Stabilitas (spk ! j)) \<and>
    stable_value spk = Some (C4_Stabilitas (spk ! i)) \<and>
    stable_value spk = Some (Min (C4_Stabilitas ` set spk)) \<and>
    (\<forall>fs sb. hasil_spk_topsis fs = Some spk \<longrightarrow>
       (\<forall>w v. Metric_paling_stabil w v \<in> set (snd (app fs sb)) \<longrightarrow>
          w = Wilayah_spk (spk ! i) \<and> v = Some (C4_Stabilitas (spk ! i))) \<and>
       (fst (app fs sb) = Completed \<longrightarrow>
          Metric_paling_stabil (Wilayah_spk (spk ! i)) (Some (C4_Stabilitas (spk ! i)))
            \<in> set (snd (app fs sb))))"
proof -
  from assms obtain i where i: "i < length spk" "stable_region spk = Inr (Wilayah_spk (spk ! i))"
    "\<forall>j<length spk. C4_Stabilitas (spk ! i) \<le> C4_Stabilitas (spk ! j)"
    "\<forall>j<i. C4_Stabilitas (spk ! i) < C4_Stabilitas (spk ! j)"
    by (rule stable_region_first_min)
  have "Min (C4_Stabilitas ` set spk) = C4_Stabilitas (spk ! i)"
  proof (rule Min_eqI)
    show "finite (C4_Stabilitas ` set spk)" by simp
    show "C4_Stabilitas (spk ! i) \<in> C4_Stabilitas ` set spk" using i(1) by simp
    fix y assume "y \<in> C4_Stabilitas ` set spk"
    then obtain j where "j < length spk" "y = C4_Stabilitas (spk ! j)"
      by (auto simp: in_set_conv_nth)
    then show "C4_Stabilitas (spk ! i) \<le> y" using i(3) by simp
  qed
  then have v: "stable_value spk = Some (C4_Stabilitas (spk ! i))"
    using stable_value_Min [OF assms] by simp
  have page: "(\<forall>w v. Metric_paling_stabil w v \<in> set (snd (app fs sb)) \<longrightarrow>
          w = Wilayah_spk (spk ! i) \<and> v = Some (C4_Stabilitas (spk ! i))) \<and>
       (fst (app fs sb) = Completed \<longrightarrow>
          Metric_paling_stabil (Wilayah_spk (spk ! i)) (Some (C4_Stabilitas (spk ! i)))
            \<in> set (snd (app fs sb)))"
    if "hasil_spk_topsis fs = Some spk" for fs sb
    using page_paling_stabil [OF that i(2), of sb] unfolding v .
  show ?thesis using i v stable_value_Min [OF assms] page by blast
qed

theorem stable_region_minimal_witness:
  "scenario_ties \<noteq> [] \<and>
   stable_region scenario_ties = Inr ''B'' \<and> stable_value scenario_ties = Some 2 \<and>
   fst (app (scenario_files_with scenario_ts_abc scenario_ties) (scenario_sidebar [''A''])) =
     Completed \<and>
   Metric_paling_stabil ''B'' (Some 2)
     \<in> set (snd (app (scenario_files_with scenario_ts_abc scenario_ties) (scenario_sidebar [''A'']))) \<and>
   (\<exists>i<length scenario_ties.
      stable_region scenario_ties = Inr (Wilayah_spk (scenario_ties ! i)) \<and>
      (\<forall>j<length scenario_ties.
         C4_Stabilitas (scenario_ties ! i) \<le> C4_Stabilitas (scenario_ties ! j)) \<and>
      (\<forall>j<i. C4_Stabilitas (scenario_ties ! i) < C4_Stabilitas (scenario_ties ! j)) \<and>
      stable_value scenario_ties = Some (C4_Stabilitas (scenario_ties ! i)) \<and>
      stable_value scenario_ties = Some (Min (C4_Stabilitas ` set scenario_ties)) \<and>
      Metric_paling_stabil (Wilayah_spk (scenario_ties ! i)) (Some (C4_Stabilitas (scenario_ties ! i)))
        \<in> set (snd (app (scenario_files_with scenario_ts_abc scenario_ties) (scenario_sidebar [''A'']))))"
proof -
  let ?fs = "scenario_files_with scenario_ts_abc scenario_ties"
  have ne: "scenario_ties \<noteq> []" by (simp add: scenario_ties_def)
  have r: "stable_region scenario_ties = Inr ''B''"
    by (simp add: scenario_ties_def scenario_region_def stable_region_def idxmin_def loc_def)
  have v: "stable_value scenario_ties = Some 2"
    by (simp add: scenario_ties_def scenario_region_def stable_value_def)
  have f: "hasil_spk_topsis ?fs = Some scenario_ties"
    by (simp add: scenario_files_with_def)
  have c: "fst (app ?fs (scenario_sidebar [''A''])) = Completed"
    by (simp add: scenario_files_with_def scenario_ts_abc_def scenario_ts_def scenario_ties_def
        scenario_region_def scenario_sidebar_def app_def load_data_def script_unfold
        min_year_def max_year_def top_region_def top_score_def values0_def stable_region_def
        idxmin_def loc_def)
  from stable_region_minimal [OF ne] obtain i where i: "i < length scenario_ties"
    "stable_region scenario_ties = Inr (Wilayah_spk (scenario_ties ! i))"
    "\<forall>j<length scenario_ties. C4_Stabilitas (scenario_ties ! i) \<le> C4_Stabilitas (scenario_ties ! j)"
    "\<forall>j<i. C4_Stabilitas (scenario_ties ! i) < C4_Stabilitas (scenario_ties ! j)"
    "stable_value scenario_ties = Some (C4_Stabilitas (scenario_ties ! i))"
    "stable_value scenario_ties = Some (Min (C4_Stabilitas ` set scenario_ties))"
    "Metric_paling_stabil (Wilayah_spk (scenario_ties ! i)) (Some (C4_Stabilitas (scenario_ties ! i)))
        \<in> set (snd (app ?fs (scenario_sidebar [''A''])))"
    using f c by blast
  have a: "Wilayah_spk (scenario_ties ! i) = ''B''" using i(2) unfolding r by simp
  have b: "C4_Stabilitas (scenario_ties ! i) = 2" using i(5) unfolding v by simp
  have "Metric_paling_stabil ''B'' (Some 2) \<in> set (snd (app ?fs (scenario_sidebar [''A''])))"
    using i(7) unfolding a b .
  then show ?thesis using ne r v c i by blast
qed

section \<open>The tables are only read\<close>

text \<open>
  C9. A pass changes no object that the store held before it: the frames it makes are
  new objects, and no operation of the script replaces a frame it is given (the sort
  is called without \<^verbatim>\<open>inplace\<close>). So after a pass, and after any number of passes in a
  row, the variables \<open>df_ts\<close> and \<open>df_spk\<close> still refer to the two tables of the loader,
  whatever the sidebar holds and however each pass ends.
\<close>

theorem tables_never_mutated:
  "(\<exists>ts' spk'. ts_frames (snd (script sb s)) = ts_frames s @ ts' \<and>
      spk_frames (snd (script sb s)) = spk_frames s @ spk') \<and>
   (\<exists>ts' spk'. ts_frames (rerun s sbs) = ts_frames s @ ts' \<and>
      spk_frames (rerun s sbs) = spk_frames s @ spk') \<and>
   ts_at (snd (script sb (session ts spk page))) df_ts = ts \<and>
   spk_at (snd (script sb (session ts spk page))) df_spk = spk \<and>
   ts_at (rerun (session ts spk page) sbs) df_ts = ts \<and>
   spk_at (rerun (session ts spk page) sbs) df_spk = spk"
proof -
  have first: "ts_at s' df_ts = ts \<and> spk_at s' df_spk = spk"
    if "\<exists>ts' spk'. ts_frames s' = ts_frames (session ts spk page) @ ts' \<and>
      spk_frames s' = spk_frames (session ts spk page) @ spk'" for s'
    using that by (auto simp: session_def ts_at_def spk_at_def df_ts_def df_spk_def)
  show ?thesis
    using script_keeps_objects [of sb s] rerun_keeps_objects [of s sbs]
      first [OF script_keeps_objects [of sb "session ts spk page"]]
      first [OF rerun_keeps_objects [of "session ts spk page" sbs]]
    by blast
qed

section \<open>Several rows of rank 1\<close>

text \<open>
  C10. When more than one row has \<open>Ranking\<close> 1, the rank-1 KPI raises nothing: its two
  reads return the region and the score of the first such row in table order, no pass
  over this table ends with \<^verbatim>\<open>IndexError\<close>, a page shows no other region or score for
  this KPI, and a pass that completes shows them.
\<close>

theorem first_rank_ties_take_first:
  assumes "1 < length (filter (\<lambda>r. Ranking r = 1) spk)"
  shows "\<exists>i<length spk.
    Ranking (spk ! i) = 1 \<and> (\<forall>j<i. Ranking (spk ! j) \<noteq> 1) \<and>
    top_region spk = Inr (Wilayah_spk (spk ! i)) \<and>
    top_score spk = Inr (Skor_TOPSIS (spk ! i)) \<and>
    (\<forall>fs sb. hasil_spk_topsis fs = Some spk \<longrightarrow>
       fst (app fs sb) \<noteq> Faulted IndexError \<and>
       (\<forall>w v. Metric_wilayah_terbaik w v \<in> set (snd (app fs sb)) \<longrightarrow>
          w = Wilayah_spk (spk ! i) \<and> v = Skor_TOPSIS (spk ! i)) \<and>
       (fst (app fs sb) = Completed \<longrightarrow>
          Metric_wilayah_terbaik (Wilayah_spk (spk ! i)) (Skor_TOPSIS (spk ! i))
            \<in> set (snd (app fs sb))))"
proof -
  from assms have "filter (\<lambda>r. Ranking r = 1) spk \<noteq> []" by auto
  then have ex: "\<exists>r\<in>set spk. Ranking r = 1" by (simp add: filter_empty_conv)
  from ex obtain i where i: "i < length spk" "Ranking (spk ! i) = 1"
    "\<forall>j<i. \<not> Ranking (spk ! j) = 1"
    "values0 (map Wilayah_spk (filter (\<lambda>r. Ranking r = 1) spk)) = Inr (Wilayah_spk (spk ! i))"
    by (rule values0_filter_first [where f = Wilayah_spk])
  from ex obtain k where k: "k < length spk" "Ranking (spk ! k) = 1"
    "\<forall>j<k. \<not> Ranking (spk ! j) = 1"
    "values0 (map Skor_TOPSIS (filter (\<lambda>r. Ranking r = 1) spk)) = Inr (Skor_TOPSIS (spk ! k))"
    by (rule values0_filter_first [where f = Skor_TOPSIS])
  have "k = i" using i(2,3) k(2,3) by (meson linorder_neqE_nat)
  then have sc: "top_score spk = Inr (Skor_TOPSIS (spk ! i))" using k(4) by (simp add: top_score_def)
  have reg: "top_region spk = Inr (Wilayah_spk (spk ! i))" using i(4) by (simp add: top_region_def)
  have page: "fst (app fs sb) \<noteq> Faulted IndexError \<and>
       (\<forall>w v. Metric_wilayah_terbaik w v \<in> set (snd (app fs sb)) \<longrightarrow>
          w = Wilayah_spk (spk ! i) \<and> v = Skor_TOPSIS (spk ! i)) \<and>
       (fst (app fs sb) = Completed \<longrightarrow>
          Metric_wilayah_terbaik (Wilayah_spk (spk ! i)) (Skor_TOPSIS (spk ! i))
            \<in> set (snd (app fs sb)))"
    if "hasil_spk_topsis fs = Some spk" for fs sb
    by (rule page_wilayah_terbaik [OF that reg sc])
  show ?thesis using i(1,2,3) reg sc page by blast
qed

theorem first_rank_ties_take_first_witness:
  "1 < length (filter (\<lambda>r. Ranking r = 1) scenario_ties) \<and>
   top_region scenario_ties = Inr ''B'' \<and> top_score scenario_ties = Inr 0.9 \<and>
   fst (app (scenario_files_with scenario_ts_abc scenario_ties) (scenario_sidebar [''A''])) =
     Completed \<and>
   Metric_wilayah_terbaik ''B'' 0.9
     \<in> set (snd (app (scenario_files_with scenario_ts_abc scenario_ties) (scenario_sidebar [''A'']))) \<and>
   (\<exists>i<length scenario_ties.
      Ranking (scenario_ties ! i) = 1 \<and> (\<forall>j<i. Ranking (scenario_ties ! j) \<noteq> 1) \<and>
      top_region scenario_ties = Inr (Wilayah_spk (scenario_ties ! i)) \<and>
      top_score scenario_ties = Inr (Skor_TOPSIS (scenario_ties ! i)) \<and>
      Metric_wilayah_terbaik (Wilayah_spk (scenario_ties ! i)) (Skor_TOPSIS (scenario_ties ! i))
        \<in> set (snd (app (scenario_files_with scenario_ts_abc scenario_ties) (scenario_sidebar [''A'']))))"
proof -
  let ?fs = "scenario_files_with scenario_ts_abc scenario_ties"
  have h: "1 < length (filter (\<lambda>r. Ranking r = 1) scenario_ties)"
    by (simp add: scenario_ties_def scenario_region_def)
  have r: "top_region scenario_ties = Inr ''B''"
    by (simp add: scenario_ties_def scenario_region_def top_region_def values0_def)
  have s: "top_score scenario_ties = Inr 0.9"
    by (simp add: scenario_ties_def scenario_region_def top_score_def values0_def)
  have f: "hasil_spk_topsis ?fs = Some scenario_ties"
    by (simp add: scenario_files_with_def)
  have c: "fst (app ?fs (scenario_sidebar [''A''])) = Completed"
    by (simp add: scenario_files_with_def scenario_ts_abc_def scenario_ts_def scenario_ties_def
        scenario_region_def scenario_sidebar_def app_def load_data_def script_unfold
        min_year_def max_year_def top_region_def top_score_def values0_def stable_region_def
        idxmin_def loc_def)
  from first_rank_ties_take_first [OF h] obtain i where i: "i < length scenario_ties"
    "Ranking (scenario_ties ! i) = 1" "\<forall>j<i. Ranking (scenario_ties ! j) \<noteq> 1"
    "top_region scenario_ties = Inr (Wilayah_spk (scenario_ties ! i))"
    "top_score scenario_ties = Inr (Skor_TOPSIS (scenario_ties ! i))"
    "Metric_wilayah_terbaik (Wilayah_spk (scenario_ties ! i)) (Skor_TOPSIS (scenario_ties ! i))
        \<in> set (snd (app ?fs (scenario_sidebar [''A''])))"
    using f c by blast
  have a: "Wilayah_spk (scenario_ties ! i) = ''B''" using i(4) unfolding r by simp
  have b: "Skor_TOPSIS (scenario_ties ! i) = 0.9" using i(5) unfolding s by simp
  have "Metric_wilayah_terbaik ''B'' 0.9 \<in> set (snd (app ?fs (scenario_sidebar [''A''])))"
    using i(6) unfolding a b .
  then show ?thesis using h r s c i by blast
qed

end
